theory Spec2Isabelle
  imports Complex_Main "HOL-Library.Word"
begin

section \<open>Data model of start.py\<close>

text \<open>
  Python exceptions that the ranking code can raise become values.  \<open>ReadFailure\<close> is whatever
  the external \<open>MultiFileReader.read\<close> raises; \<open>FloatNotFinite\<close> marks the places where numpy
  leaves the finite numbers without raising (\<open>np.log10(0.0)\<close> is \<open>-inf\<close>, the reciprocal of a
  numpy zero is \<open>inf\<close>): scores are modelled as reals, an idealisation of the double-precision
  floats of the source, and the reals have no infinity.  Which formula is computed, which
  documents are scored and in which order they are ranked does not depend on the rounding;
  where a claim does, \<open>calc_BM25\<close> is modelled a second time with rounded arithmetic.
\<close>

datatype error = KeyError | ZeroDivisionError | ReadFailure | FloatNotFinite

type_synonym byte = "8 word"
type_synonym posting = "nat \<times> nat"
type_synonym token = string

text \<open>
  The inverted index object: the five dictionaries the code looks up.  Counts are naturals.
\<close>

record 'loc inverted_index =
  df :: "token \<rightharpoonup> nat"
  term_total :: "token \<rightharpoonup> nat"
  posting_locs :: "token \<rightharpoonup> 'loc"
  DL :: "nat \<rightharpoonup> nat"
  docs_norm :: "nat \<rightharpoonup> real"

text \<open>
  \<open>MultiFileReader.read(locs, n)\<close> lives in \<open>inverted_index_gcp\<close>; it is a parameter of the model.
\<close>

type_synonym 'loc reader = "'loc \<Rightarrow> nat \<Rightarrow> error + byte list"

text \<open>
  A Python dict keeps its keys in insertion order, and the order is observable through the
  stable sort of the ranking, so a dict from document ids to scores is an association list.
\<close>

type_synonym 'a score_map = "(nat \<times> 'a) list"

section \<open>Posting lists\<close>

text \<open>\<open>int.from_bytes(bs, 'big')\<close>; the empty byte string gives 0.\<close>

definition from_bytes_big :: "byte list \<Rightarrow> nat" where
  "from_bytes_big bs = foldl (\<lambda>a x. a * 256 + unat x) 0 bs"

text \<open>The slice \<open>b[i:j]\<close> for \<open>0 \<le> i \<le> j\<close>: it is cut short, never an error, past the end.\<close>

definition slice :: "'a list \<Rightarrow> nat \<Rightarrow> nat \<Rightarrow> 'a list" where
  "slice b i j = take (j - i) (drop i b)"

definition decode_posting :: "byte list \<Rightarrow> nat \<Rightarrow> posting" where
  "decode_posting b i =
     (from_bytes_big (slice b (i * 6) (i * 6 + 4)),
      from_bytes_big (slice b (i * 6 + 4) ((i + 1) * 6)))"

definition read_posting_list ::
  "'loc inverted_index \<Rightarrow> 'loc reader \<Rightarrow> token \<Rightarrow> error + posting list" where
  "read_posting_list inverted reader w =
     (case posting_locs inverted w of
        None \<Rightarrow> Inl KeyError
      | Some locs \<Rightarrow>
          (case df inverted w of
             None \<Rightarrow> Inl KeyError
           | Some n \<Rightarrow>
               (case reader locs (n * 6) of
                  Inl e \<Rightarrow> Inl e
                | Inr b \<Rightarrow> Inr (map (decode_posting b) [0..<n]))))"

section \<open>Query term multiset and score accumulation\<close>

text \<open>
  \<open>query_sim_dict[doc_id] += v\<close> when the key is present, \<open>query_sim_dict[doc_id] = v\<close>
  (appended last) when it is not.  \<open>Counter\<close> counts the same way.
\<close>

fun add_score :: "('k \<times> 'a::plus) list \<Rightarrow> 'k \<Rightarrow> 'a \<Rightarrow> ('k \<times> 'a) list" where
  "add_score [] d v = [(d, v)]"
| "add_score ((d', s) # m) d v =
     (if d' = d then (d', s + v) # m else (d', s) # add_score m d v)"

text \<open>\<open>list(Counter(q_tokens).items())\<close>: distinct tokens in order of first occurrence.\<close>

definition Counter :: "token list \<Rightarrow> (token \<times> nat) list" where
  "Counter q_tokens = foldl (\<lambda>c w. add_score c w 1) [] q_tokens"

text \<open>
  The tail of every ranking function: \<open>sorted(d, key=d.get, reverse=True)\<close>, cut to \<open>N\<close> keys
  when the dict is longer.  The key of a document is its own value in the dict; Python's
  sort is stable also with \<open>reverse=True\<close>, as is insertion sort on the negated score.
\<close>

definition sorted_desc :: "real score_map \<Rightarrow> real score_map" where
  "sorted_desc m = sort_key (\<lambda>p. - snd p) m"

definition top_docs :: "real score_map \<Rightarrow> nat \<Rightarrow> nat list" where
  "top_docs m N =
     (if length m > N then take N (map fst (sorted_desc m)) else map fst (sorted_desc m))"

definition top_pairs :: "real score_map \<Rightarrow> nat \<Rightarrow> (nat \<times> real) list" where
  "top_pairs m N =
     (if length m > N then take N (sorted_desc m) else sorted_desc m)"

section \<open>TF-IDF\<close>

text \<open>The inner loop of \<open>OPT_Tfidf\<close> over one posting list.\<close>

fun tfidf_postings ::
  "'loc inverted_index \<Rightarrow> nat \<Rightarrow> token \<Rightarrow> nat \<Rightarrow> posting list \<Rightarrow> real score_map
     \<Rightarrow> error + real score_map" where
  "tfidf_postings index corpus_docs q_word qc [] m = Inr m"
| "tfidf_postings index corpus_docs q_word qc ((doc_id, word_count) # ps) m =
     (if doc_id \<noteq> 0 then
        (case df index q_word of
           None \<Rightarrow> Inl KeyError
         | Some n \<Rightarrow>
             if n = 0 then Inl ZeroDivisionError
             else if corpus_docs = 0 then Inl FloatNotFinite
             else tfidf_postings index corpus_docs q_word qc ps
                    (add_score m doc_id
                       (real qc * (real word_count * log 10 (real corpus_docs / real n)))))
      else tfidf_postings index corpus_docs q_word qc ps m)"

text \<open>The outer loop over the counted query terms.\<close>

fun tfidf_terms ::
  "'loc inverted_index \<Rightarrow> 'loc reader \<Rightarrow> nat \<Rightarrow> (token \<times> nat) list \<Rightarrow> real score_map
     \<Rightarrow> error + real score_map" where
  "tfidf_terms index reader corpus_docs [] m = Inr m"
| "tfidf_terms index reader corpus_docs ((q_word, qc) # ts) m =
     (if term_total index q_word \<noteq> None then
        (case read_posting_list index reader q_word of
           Inl e \<Rightarrow> Inl e
         | Inr pl \<Rightarrow>
             (case tfidf_postings index corpus_docs q_word qc pl m of
                Inl e \<Rightarrow> Inl e
              | Inr m' \<Rightarrow> tfidf_terms index reader corpus_docs ts m'))
      else tfidf_terms index reader corpus_docs ts m)"

text \<open>
  The normalisation loop: \<open>d[doc_id] * (1 / query_size) * (1 / index.DL[doc_id])\<close>, both
  divisions on Python ints.
\<close>

fun tfidf_normalize ::
  "'loc inverted_index \<Rightarrow> nat \<Rightarrow> real score_map \<Rightarrow> error + real score_map" where
  "tfidf_normalize index query_size [] = Inr []"
| "tfidf_normalize index query_size ((doc_id, s) # m) =
     (if query_size = 0 then Inl ZeroDivisionError
      else
        (case DL index doc_id of
           None \<Rightarrow> Inl KeyError
         | Some l \<Rightarrow>
             if l = 0 then Inl ZeroDivisionError
             else
               (case tfidf_normalize index query_size m of
                  Inl e \<Rightarrow> Inl e
                | Inr m' \<Rightarrow> Inr ((doc_id, s * (1 / real query_size) * (1 / real l)) # m'))))"

text \<open>The dict of \<open>OPT_Tfidf\<close> when it reaches line 54, and the function itself.\<close>

definition OPT_Tfidf_scores ::
  "token list \<Rightarrow> 'loc inverted_index \<Rightarrow> 'loc reader \<Rightarrow> nat \<Rightarrow> error + real score_map" where
  "OPT_Tfidf_scores q_tokens index reader corpus_docs =
     (case tfidf_terms index reader corpus_docs (Counter q_tokens) [] of
        Inl e \<Rightarrow> Inl e
      | Inr m \<Rightarrow> tfidf_normalize index (length q_tokens) m)"

definition OPT_Tfidf ::
  "token list \<Rightarrow> 'loc inverted_index \<Rightarrow> 'loc reader \<Rightarrow> nat \<Rightarrow> nat \<Rightarrow> error + nat list" where
  "OPT_Tfidf q_tokens index reader corpus_docs N =
     (case OPT_Tfidf_scores q_tokens index reader corpus_docs of
        Inl e \<Rightarrow> Inl e
      | Inr m \<Rightarrow> Inr (top_docs m N))"

section \<open>BM25\<close>

fun bm25_postings ::
  "'loc inverted_index \<Rightarrow> real \<Rightarrow> real \<Rightarrow> real \<Rightarrow> real \<Rightarrow> posting list \<Rightarrow> real score_map
     \<Rightarrow> error + real score_map" where
  "bm25_postings index avg_dl k b q_idf [] m = Inr m"
| "bm25_postings index avg_dl k b q_idf ((doc_id, word_count) # ps) m =
     (if doc_id \<noteq> 0 then
        (case DL index doc_id of
           None \<Rightarrow> Inl KeyError
         | Some l \<Rightarrow>
             if avg_dl = 0 then Inl ZeroDivisionError
             else if real word_count + k * (1 - b + b * real l / avg_dl) = 0
               then Inl ZeroDivisionError
             else bm25_postings index avg_dl k b q_idf ps
                    (add_score m doc_id
                       (real word_count * (k + 1)
                          / (real word_count + k * (1 - b + b * real l / avg_dl)) * q_idf)))
      else bm25_postings index avg_dl k b q_idf ps m)"

fun bm25_terms ::
  "'loc inverted_index \<Rightarrow> 'loc reader \<Rightarrow> nat \<Rightarrow> real \<Rightarrow> real \<Rightarrow> real \<Rightarrow> (token \<times> nat) list
     \<Rightarrow> real score_map \<Rightarrow> error + real score_map" where
  "bm25_terms index reader corpus_docs avg_dl k b [] m = Inr m"
| "bm25_terms index reader corpus_docs avg_dl k b ((q_word, qc) # ts) m =
     (if term_total index q_word \<noteq> None then
        (case df index q_word of
           None \<Rightarrow> Inl KeyError
         | Some n \<Rightarrow>
             (case read_posting_list index reader q_word of
                Inl e \<Rightarrow> Inl e
              | Inr pl \<Rightarrow>
                  (case bm25_postings index avg_dl k b
                          (ln ((1 + real corpus_docs) / (real n + 0.5))) pl m of
                     Inl e \<Rightarrow> Inl e
                   | Inr m' \<Rightarrow> bm25_terms index reader corpus_docs avg_dl k b ts m')))
      else bm25_terms index reader corpus_docs avg_dl k b ts m)"

definition calc_BM25 ::
  "token list \<Rightarrow> 'loc inverted_index \<Rightarrow> 'loc reader \<Rightarrow> nat \<Rightarrow> real \<Rightarrow> real \<Rightarrow> real
     \<Rightarrow> error + real score_map" where
  "calc_BM25 q_tokens index reader corpus_docs avg_dl k b =
     bm25_terms index reader corpus_docs avg_dl k b (Counter q_tokens) []"

text \<open>
  Both entry points call \<open>calc_BM25\<close> with six arguments: their own \<open>k\<close> and \<open>b\<close> are not
  passed on, so \<open>calc_BM25\<close> runs with its defaults 3 and 0.25.
\<close>

definition opt_BM25 ::
  "token list \<Rightarrow> 'loc inverted_index \<Rightarrow> 'loc reader \<Rightarrow> nat \<Rightarrow> real \<Rightarrow> real \<Rightarrow> real \<Rightarrow> nat
     \<Rightarrow> error + nat list" where
  "opt_BM25 q_tokens index reader corpus_docs avg_dl k b N =
     (case calc_BM25 q_tokens index reader corpus_docs avg_dl 3 0.25 of
        Inl e \<Rightarrow> Inl e
      | Inr m \<Rightarrow> Inr (top_docs m N))"

definition opt_BM25_for_joint ::
  "token list \<Rightarrow> 'loc inverted_index \<Rightarrow> nat \<Rightarrow> real \<Rightarrow> 'loc reader \<Rightarrow> real \<Rightarrow> real \<Rightarrow> nat
     \<Rightarrow> error + (nat \<times> real) list" where
  "opt_BM25_for_joint q_tokens index corpus_docs avg_dl reader k b N =
     (case calc_BM25 q_tokens index reader corpus_docs avg_dl 3 0.25 of
        Inl e \<Rightarrow> Inl e
      | Inr m \<Rightarrow> Inr (top_pairs m N))"

section \<open>Cosine similarity\<close>

text \<open>\<open>norm([item[1] / query_size for item in query_counter.items()])\<close>.\<close>

definition query_norm :: "token list \<Rightarrow> real" where
  "query_norm q_tokens =
     sqrt (\<Sum>item \<leftarrow> Counter q_tokens. (real (snd item) / real (length q_tokens))\<^sup>2)"

text \<open>The inner loop adds Python ints.\<close>

fun cosine_postings :: "nat \<Rightarrow> posting list \<Rightarrow> nat score_map \<Rightarrow> nat score_map" where
  "cosine_postings qc [] m = m"
| "cosine_postings qc ((doc_id, word_count) # ps) m =
     (if doc_id \<noteq> 0 then cosine_postings qc ps (add_score m doc_id (word_count * qc))
      else cosine_postings qc ps m)"

fun cosine_terms ::
  "'loc inverted_index \<Rightarrow> 'loc reader \<Rightarrow> (token \<times> nat) list \<Rightarrow> nat score_map
     \<Rightarrow> error + nat score_map" where
  "cosine_terms index reader [] m = Inr m"
| "cosine_terms index reader ((q_word, qc) # ts) m =
     (if term_total index q_word \<noteq> None then
        (case read_posting_list index reader q_word of
           Inl e \<Rightarrow> Inl e
         | Inr pl \<Rightarrow> cosine_terms index reader ts (cosine_postings qc pl m))
      else cosine_terms index reader ts m)"

text \<open>
  \<open>d[doc_id] * (1 / query_norm) * (1 / index.docs_norm[doc_id])\<close>: \<open>query_norm\<close> is a numpy
  float, whose reciprocal at 0 is \<open>inf\<close>; the stored norm is taken to be a Python float,
  whose reciprocal at 0 raises.
\<close>

fun cosine_normalize ::
  "'loc inverted_index \<Rightarrow> real \<Rightarrow> nat score_map \<Rightarrow> error + real score_map" where
  "cosine_normalize index qn [] = Inr []"
| "cosine_normalize index qn ((doc_id, s) # m) =
     (if qn = 0 then Inl FloatNotFinite
      else
        (case docs_norm index doc_id of
           None \<Rightarrow> Inl KeyError
         | Some dn \<Rightarrow>
             if dn = 0 then Inl ZeroDivisionError
             else
               (case cosine_normalize index qn m of
                  Inl e \<Rightarrow> Inl e
                | Inr m' \<Rightarrow> Inr ((doc_id, real s * (1 / qn) * (1 / dn)) # m'))))"

definition OPT_Cosine_scores ::
  "token list \<Rightarrow> 'loc inverted_index \<Rightarrow> 'loc reader \<Rightarrow> error + real score_map" where
  "OPT_Cosine_scores q_tokens index reader =
     (case cosine_terms index reader (Counter q_tokens) [] of
        Inl e \<Rightarrow> Inl e
      | Inr m \<Rightarrow> cosine_normalize index (query_norm q_tokens) m)"

definition OPT_Cosine ::
  "token list \<Rightarrow> 'loc inverted_index \<Rightarrow> 'loc reader \<Rightarrow> nat \<Rightarrow> error + nat list" where
  "OPT_Cosine q_tokens index reader N =
     (case OPT_Cosine_scores q_tokens index reader of
        Inl e \<Rightarrow> Inl e
      | Inr m \<Rightarrow> Inr (top_docs m N))"

section \<open>A small index for concrete runs\<close>

text \<open>
  One term, \<open>cat\<close>, with document frequency 2; its stored record is the posting (7, 3)
  followed by a sentinel record and two bytes of padding.  The three readers return exactly
  the requested bytes, more than requested, and half of them.
\<close>

definition cat_segment :: "byte list" where
  "cat_segment = [0, 0, 0, 7, 0, 3, 0, 0, 0, 0, 0, 0, 255, 255]"

definition cat_index :: "nat inverted_index" where
  "cat_index = \<lparr>df = [''cat'' \<mapsto> 2], term_total = [''cat'' \<mapsto> 3],
     posting_locs = [''cat'' \<mapsto> 0], DL = [7 \<mapsto> 50], docs_norm = [7 \<mapsto> 3]\<rparr>"

definition exact_reader :: "nat reader" where
  "exact_reader locs n = Inr (take n (drop locs cat_segment))"

definition padded_reader :: "nat reader" where
  "padded_reader locs n = Inr (drop locs cat_segment)"

definition short_reader :: "nat reader" where
  "short_reader locs n = Inr (take (n div 2) (drop locs cat_segment))"

section \<open>Definitions for the proofs: the merge skeleton, the formulas of the specification\<close>

text \<open>The value a dict holds for a key, 0 for a key it does not hold.\<close>

definition score_of :: "('k \<times> 'a::zero) list \<Rightarrow> 'k \<Rightarrow> 'a" where
  "score_of m d = (case map_of m d of None \<Rightarrow> 0 | Some s \<Rightarrow> s)"

text \<open>
  The three models run the same two nested loops and differ in the weight they add for a
  posting and in what they look up before reading a posting list.  The loops are stated once
  here, with both as parameters; each model's own loops are proved equal to an instance.
\<close>

fun accumulate ::
  "(nat \<Rightarrow> nat \<Rightarrow> error + 'a::plus) \<Rightarrow> posting list \<Rightarrow> 'a score_map
     \<Rightarrow> error + 'a score_map" where
  "accumulate wt [] m = Inr m"
| "accumulate wt ((doc_id, word_count) # ps) m =
     (if doc_id \<noteq> 0 then
        (case wt doc_id word_count of
           Inl e \<Rightarrow> Inl e
         | Inr v \<Rightarrow> accumulate wt ps (add_score m doc_id v))
      else accumulate wt ps m)"

fun merge_terms ::
  "(token \<Rightarrow> bool) \<Rightarrow> (token \<Rightarrow> nat \<Rightarrow> error + (nat \<Rightarrow> nat \<Rightarrow> error + 'a::plus) \<times> posting list)
     \<Rightarrow> (token \<times> nat) list \<Rightarrow> 'a score_map \<Rightarrow> error + 'a score_map" where
  "merge_terms known plan [] m = Inr m"
| "merge_terms known plan ((q_word, qc) # ts) m =
     (if known q_word then
        (case plan q_word qc of
           Inl e \<Rightarrow> Inl e
         | Inr (wt, pl) \<Rightarrow>
             (case accumulate wt pl m of
                Inl e \<Rightarrow> Inl e
              | Inr m' \<Rightarrow> merge_terms known plan ts m'))
      else merge_terms known plan ts m)"

text \<open>
  What the loops compute, in closed form: the sum of the weights of the postings of one
  document, the documents a posting list names, and whether some posting makes the loop fail.
\<close>

definition weight_of :: "error + 'a::zero \<Rightarrow> 'a" where
  "weight_of r = (case r of Inl e \<Rightarrow> 0 | Inr v \<Rightarrow> v)"

definition posting_sum :: "(nat \<Rightarrow> nat \<Rightarrow> error + 'a::monoid_add) \<Rightarrow> posting list \<Rightarrow> nat \<Rightarrow> 'a" where
  "posting_sum wt pl d =
     (\<Sum>(d', wc) \<leftarrow> pl. if d' = d \<and> d' \<noteq> 0 then weight_of (wt d' wc) else 0)"

definition posting_fails :: "(nat \<Rightarrow> nat \<Rightarrow> error + 'a) \<Rightarrow> posting list \<Rightarrow> bool" where
  "posting_fails wt pl = (\<exists>(d, wc) \<in> set pl. d \<noteq> 0 \<and> isl (wt d wc))"

definition plan_sum ::
  "(error + (nat \<Rightarrow> nat \<Rightarrow> error + 'a::monoid_add) \<times> posting list) \<Rightarrow> nat \<Rightarrow> 'a" where
  "plan_sum p d = (case p of Inl e \<Rightarrow> 0 | Inr (wt, pl) \<Rightarrow> posting_sum wt pl d)"

definition plan_docs ::
  "(error + (nat \<Rightarrow> nat \<Rightarrow> error + 'a) \<times> posting list) \<Rightarrow> nat set" where
  "plan_docs p = (case p of Inl e \<Rightarrow> {} | Inr (wt, pl) \<Rightarrow> {d \<in> fst ` set pl. d \<noteq> 0})"

definition plan_fails ::
  "(error + (nat \<Rightarrow> nat \<Rightarrow> error + 'a) \<times> posting list) \<Rightarrow> bool" where
  "plan_fails p = (case p of Inl e \<Rightarrow> True | Inr (wt, pl) \<Rightarrow> posting_fails wt pl)"

text \<open>The weights and per-term preparations of the three models.\<close>

definition tfidf_weight ::
  "'loc inverted_index \<Rightarrow> nat \<Rightarrow> token \<Rightarrow> nat \<Rightarrow> nat \<Rightarrow> nat \<Rightarrow> error + real" where
  "tfidf_weight index corpus_docs q_word qc doc_id word_count =
     (case df index q_word of
        None \<Rightarrow> Inl KeyError
      | Some n \<Rightarrow>
          if n = 0 then Inl ZeroDivisionError
          else if corpus_docs = 0 then Inl FloatNotFinite
          else Inr (real qc * (real word_count * log 10 (real corpus_docs / real n))))"

definition tfidf_plan ::
  "'loc inverted_index \<Rightarrow> 'loc reader \<Rightarrow> nat \<Rightarrow> token \<Rightarrow> nat
     \<Rightarrow> error + (nat \<Rightarrow> nat \<Rightarrow> error + real) \<times> posting list" where
  "tfidf_plan index reader corpus_docs q_word qc =
     (case read_posting_list index reader q_word of
        Inl e \<Rightarrow> Inl e
      | Inr pl \<Rightarrow> Inr (tfidf_weight index corpus_docs q_word qc, pl))"

definition bm25_weight ::
  "'loc inverted_index \<Rightarrow> real \<Rightarrow> real \<Rightarrow> real \<Rightarrow> real \<Rightarrow> nat \<Rightarrow> nat \<Rightarrow> error + real" where
  "bm25_weight index avg_dl k b q_idf doc_id word_count =
     (case DL index doc_id of
        None \<Rightarrow> Inl KeyError
      | Some l \<Rightarrow>
          if avg_dl = 0 then Inl ZeroDivisionError
          else if real word_count + k * (1 - b + b * real l / avg_dl) = 0
            then Inl ZeroDivisionError
          else Inr (real word_count * (k + 1)
                      / (real word_count + k * (1 - b + b * real l / avg_dl)) * q_idf))"

definition bm25_plan ::
  "'loc inverted_index \<Rightarrow> 'loc reader \<Rightarrow> nat \<Rightarrow> real \<Rightarrow> real \<Rightarrow> real \<Rightarrow> token \<Rightarrow> nat
     \<Rightarrow> error + (nat \<Rightarrow> nat \<Rightarrow> error + real) \<times> posting list" where
  "bm25_plan index reader corpus_docs avg_dl k b q_word qc =
     (case df index q_word of
        None \<Rightarrow> Inl KeyError
      | Some n \<Rightarrow>
          (case read_posting_list index reader q_word of
             Inl e \<Rightarrow> Inl e
           | Inr pl \<Rightarrow>
               Inr (bm25_weight index avg_dl k b
                      (ln ((1 + real corpus_docs) / (real n + 0.5))), pl)))"

definition cosine_plan ::
  "'loc inverted_index \<Rightarrow> 'loc reader \<Rightarrow> token \<Rightarrow> nat
     \<Rightarrow> error + (nat \<Rightarrow> nat \<Rightarrow> error + nat) \<times> posting list" where
  "cosine_plan index reader q_word qc =
     (case read_posting_list index reader q_word of
        Inl e \<Rightarrow> Inl e
      | Inr pl \<Rightarrow> Inr (\<lambda>doc_id word_count. Inr (word_count * qc), pl))"

definition in_vocabulary :: "'loc inverted_index \<Rightarrow> token \<Rightarrow> bool" where
  "in_vocabulary index q_word = (term_total index q_word \<noteq> None)"

text \<open>What is asked of a ranking \<open>r\<close> cut from the score map \<open>m\<close> at \<open>N\<close>.\<close>

definition top_n_of :: "real score_map \<Rightarrow> nat \<Rightarrow> nat list \<Rightarrow> bool" where
  "top_n_of m N r \<longleftrightarrow>
     (length m \<le> N \<longrightarrow> set r = fst ` set m \<and> length r = length m)
     \<and> (N < length m \<longrightarrow> length r = N)
     \<and> set r \<subseteq> fst ` set m \<and> distinct r
     \<and> sorted_wrt (\<lambda>d d'. score_of m d' \<le> score_of m d) r
     \<and> (\<forall>d \<in> set r. \<forall>d' \<in> fst ` set m - set r. score_of m d' \<le> score_of m d)"

text \<open>A second index: one term whose three postings name three documents.\<close>

definition zoo_segment :: "byte list" where
  "zoo_segment = [0, 0, 0, 1, 0, 2, 0, 0, 0, 2, 0, 5, 0, 0, 0, 3, 0, 1]"

definition zoo_index :: "nat inverted_index" where
  "zoo_index = \<lparr>df = [''cat'' \<mapsto> 3], term_total = [''cat'' \<mapsto> 8],
     posting_locs = [''cat'' \<mapsto> 0], DL = [1 \<mapsto> 10, 2 \<mapsto> 10, 3 \<mapsto> 10],
     docs_norm = [1 \<mapsto> 1, 2 \<mapsto> 1, 3 \<mapsto> 1]\<rparr>"

definition zoo_reader :: "nat reader" where
  "zoo_reader locs n = Inr (take n (drop locs zoo_segment))"

text \<open>
  Total readings of the index, for stating the formulas of the specification: the decoded
  posting list of a term (empty when it cannot be read) and the stored numbers (0 when absent).
\<close>

definition postings_of :: "'loc inverted_index \<Rightarrow> 'loc reader \<Rightarrow> token \<Rightarrow> posting list" where
  "postings_of index reader w =
     (case read_posting_list index reader w of Inl e \<Rightarrow> [] | Inr pl \<Rightarrow> pl)"

definition df_of :: "'loc inverted_index \<Rightarrow> token \<Rightarrow> nat" where
  "df_of index w = (case df index w of None \<Rightarrow> 0 | Some n \<Rightarrow> n)"

definition dl_of :: "'loc inverted_index \<Rightarrow> nat \<Rightarrow> nat" where
  "dl_of index d = (case DL index d of None \<Rightarrow> 0 | Some l \<Rightarrow> l)"

definition norm_of :: "'loc inverted_index \<Rightarrow> nat \<Rightarrow> real" where
  "norm_of index d = (case docs_norm index d of None \<Rightarrow> 0 | Some x \<Rightarrow> x)"

text \<open>The documents that get a score: those named, with a non-zero id, by a known query term.\<close>

definition scored_docs :: "'loc inverted_index \<Rightarrow> 'loc reader \<Rightarrow> token list \<Rightarrow> nat set" where
  "scored_docs index reader q =
     (\<Union>w \<in> set q. if term_total index w \<noteq> None
        then {d \<in> fst ` set (postings_of index reader w). d \<noteq> 0} else {})"

text \<open>
  The TF-IDF score as the specification words it: over the known query terms and their
  postings of document \<open>d\<close>, the sum of \<open>query_word_count * word_count * log10 (N / df)\<close>,
  times \<open>1 / |query tokens|\<close> and \<open>1 / DL[d]\<close>.
\<close>

definition tfidf_spec_score ::
  "token list \<Rightarrow> 'loc inverted_index \<Rightarrow> 'loc reader \<Rightarrow> nat \<Rightarrow> nat \<Rightarrow> real" where
  "tfidf_spec_score q index reader corpus_docs d =
     (\<Sum>w \<in> set q. if term_total index w \<noteq> None then
        (\<Sum>(d', wc) \<leftarrow> postings_of index reader w. if d' = d \<and> d' \<noteq> 0
           then real (count_list q w) * real wc
                  * log 10 (real corpus_docs / real (df_of index w))
           else 0)
      else 0)
     * (1 / real (length q)) * (1 / real (dl_of index d))"

text \<open>
  The cosine score as the specification words it: the query norm is the L2 norm of
  \<open>count / |query tokens|\<close> over the distinct terms, the accumulated value is the sum of
  \<open>word_count * query_word_count\<close>, and the final score divides by both norms.
\<close>

definition cosine_spec_norm :: "token list \<Rightarrow> real" where
  "cosine_spec_norm q = sqrt (\<Sum>w \<in> set q. (real (count_list q w) / real (length q))\<^sup>2)"

definition cosine_spec_score ::
  "token list \<Rightarrow> 'loc inverted_index \<Rightarrow> 'loc reader \<Rightarrow> nat \<Rightarrow> real" where
  "cosine_spec_score q index reader d =
     real (\<Sum>w \<in> set q. if term_total index w \<noteq> None then
        (\<Sum>(d', wc) \<leftarrow> postings_of index reader w. if d' = d \<and> d' \<noteq> 0
           then wc * count_list q w else 0)
      else 0)
     * (1 / cosine_spec_norm q) * (1 / norm_of index d)"

text \<open>
  The BM25 example of the specification: one term with document frequency 1, the posting
  (5, 2), and \<open>DL[5] = 100\<close>; it is run with \<open>corpus_docs = 10\<close> and \<open>avg_dl = 100\<close>.
\<close>

definition bm_index :: "nat inverted_index" where
  "bm_index = \<lparr>df = [''cat'' \<mapsto> 1], term_total = [''cat'' \<mapsto> 2],
     posting_locs = [''cat'' \<mapsto> 0], DL = [5 \<mapsto> 100], docs_norm = [5 \<mapsto> 2]\<rparr>"

definition bm_reader :: "nat reader" where
  "bm_reader locs n = Inr (take n (drop locs [0, 0, 0, 5, 0, 2]))"

section \<open>BM25 in double precision\<close>

text \<open>
  Double precision.  A double is modelled by the real number it stands for; \<open>rd\<close> is IEEE 754
  rounding to the nearest double, ties to the even significand: a non-zero \<open>x\<close> with
  \<open>2 ^ e \<le> |x| < 2 ^ (e + 1)\<close> is rounded to a multiple of \<open>2 ^ (e - 52)\<close>, and of \<open>2 ^ - 1074\<close>
  in the subnormal range.  Overflow to infinity is outside the model.
\<close>

definition pow2 :: "int \<Rightarrow> real" where
  "pow2 z = (if 0 \<le> z then 2 ^ nat z else 1 / 2 ^ nat (- z))"

definition round_half_even :: "real \<Rightarrow> int" where
  "round_half_even y =
     (if y - of_int \<lfloor>y\<rfloor> < 1 / 2 then \<lfloor>y\<rfloor>
      else if 1 / 2 < y - of_int \<lfloor>y\<rfloor> then \<lfloor>y\<rfloor> + 1
      else if even \<lfloor>y\<rfloor> then \<lfloor>y\<rfloor> else \<lfloor>y\<rfloor> + 1)"

definition rd :: "real \<Rightarrow> real" where
  "rd x =
     (if x = 0 then 0
      else of_int (round_half_even (x / pow2 (max (\<lfloor>log 2 \<bar>x\<bar>\<rfloor> - 52) (- 1074))))
             * pow2 (max (\<lfloor>log 2 \<bar>x\<bar>\<rfloor> - 52) (- 1074)))"


text \<open>
  The arithmetic of Python floats: every operation rounds its exact result.  Division is only
  reached with a non-zero divisor, Python raising \<open>ZeroDivisionError\<close> before.  \<open>dbl\<close> is the
  conversion of a Python int.
\<close>

datatype double = Double (real_of: real)

instantiation double :: "{plus, minus, times, inverse}"
begin

definition plus_double :: "double \<Rightarrow> double \<Rightarrow> double" where
  "x + y = Double (rd (real_of x + real_of y))"

definition minus_double :: "double \<Rightarrow> double \<Rightarrow> double" where
  "x - y = Double (rd (real_of x - real_of y))"

definition times_double :: "double \<Rightarrow> double \<Rightarrow> double" where
  "x * y = Double (rd (real_of x * real_of y))"

definition divide_double :: "double \<Rightarrow> double \<Rightarrow> double" where
  "x div y = Double (rd (real_of x / real_of y))"

definition inverse_double :: "double \<Rightarrow> double" where
  "inverse x = Double (rd (1 / real_of x))"

instance ..

end

definition dbl :: "nat \<Rightarrow> double" where
  "dbl n = Double (rd (real n))"

text \<open>
  \<open>calc_BM25\<close> once more, now with the arithmetic of the source: the same loops as
  \<open>bm25_postings\<close> and \<open>bm25_terms\<close>, every operation rounded where Python rounds it, and \<open>+=\<close>
  adding doubles in the order in which the terms are met.  \<open>np.log\<close> is numpy's; it is the
  parameter \<open>lg\<close>.
\<close>

fun bm25_postings_fp ::
  "'loc inverted_index \<Rightarrow> double \<Rightarrow> double \<Rightarrow> double \<Rightarrow> double \<Rightarrow> posting list
     \<Rightarrow> double score_map \<Rightarrow> error + double score_map" where
  "bm25_postings_fp index avg_dl k b q_idf [] m = Inr m"
| "bm25_postings_fp index avg_dl k b q_idf ((doc_id, word_count) # ps) m =
     (if doc_id \<noteq> 0 then
        (case DL index doc_id of
           None \<Rightarrow> Inl KeyError
         | Some l \<Rightarrow>
             if avg_dl = Double 0 then Inl ZeroDivisionError
             else if dbl word_count + k * (dbl 1 - b + b * dbl l / avg_dl) = Double 0
               then Inl ZeroDivisionError
             else bm25_postings_fp index avg_dl k b q_idf ps
                    (add_score m doc_id
                       (dbl word_count * (k + dbl 1)
                          / (dbl word_count + k * (dbl 1 - b + b * dbl l / avg_dl)) * q_idf)))
      else bm25_postings_fp index avg_dl k b q_idf ps m)"

fun bm25_terms_fp ::
  "(double \<Rightarrow> double) \<Rightarrow> 'loc inverted_index \<Rightarrow> 'loc reader \<Rightarrow> nat \<Rightarrow> double \<Rightarrow> double
     \<Rightarrow> double \<Rightarrow> (token \<times> nat) list \<Rightarrow> double score_map \<Rightarrow> error + double score_map" where
  "bm25_terms_fp lg index reader corpus_docs avg_dl k b [] m = Inr m"
| "bm25_terms_fp lg index reader corpus_docs avg_dl k b ((q_word, qc) # ts) m =
     (if term_total index q_word \<noteq> None then
        (case df index q_word of
           None \<Rightarrow> Inl KeyError
         | Some n \<Rightarrow>
             (case read_posting_list index reader q_word of
                Inl e \<Rightarrow> Inl e
              | Inr pl \<Rightarrow>
                  (case bm25_postings_fp index avg_dl k b
                          (lg (dbl (1 + corpus_docs) / (dbl n + Double (1 / 2)))) pl m of
                     Inl e \<Rightarrow> Inl e
                   | Inr m' \<Rightarrow> bm25_terms_fp lg index reader corpus_docs avg_dl k b ts m')))
      else bm25_terms_fp lg index reader corpus_docs avg_dl k b ts m)"

definition calc_BM25_fp ::
  "(double \<Rightarrow> double) \<Rightarrow> token list \<Rightarrow> 'loc inverted_index \<Rightarrow> 'loc reader \<Rightarrow> nat \<Rightarrow> double
     \<Rightarrow> double \<Rightarrow> double \<Rightarrow> error + double score_map" where
  "calc_BM25_fp lg q_tokens index reader corpus_docs avg_dl k b =
     bm25_terms_fp lg index reader corpus_docs avg_dl k b (Counter q_tokens) []"

definition bm25_weight_fp ::
  "'loc inverted_index \<Rightarrow> double \<Rightarrow> double \<Rightarrow> double \<Rightarrow> double \<Rightarrow> nat \<Rightarrow> nat
     \<Rightarrow> error + double" where
  "bm25_weight_fp index avg_dl k b q_idf doc_id word_count =
     (case DL index doc_id of
        None \<Rightarrow> Inl KeyError
      | Some l \<Rightarrow>
          if avg_dl = Double 0 then Inl ZeroDivisionError
          else if dbl word_count + k * (dbl 1 - b + b * dbl l / avg_dl) = Double 0
            then Inl ZeroDivisionError
          else Inr (dbl word_count * (k + dbl 1)
                      / (dbl word_count + k * (dbl 1 - b + b * dbl l / avg_dl)) * q_idf))"

definition bm25_plan_fp ::
  "(double \<Rightarrow> double) \<Rightarrow> 'loc inverted_index \<Rightarrow> 'loc reader \<Rightarrow> nat \<Rightarrow> double \<Rightarrow> double
     \<Rightarrow> double \<Rightarrow> token \<Rightarrow> nat \<Rightarrow> error + (nat \<Rightarrow> nat \<Rightarrow> error + double) \<times> posting list" where
  "bm25_plan_fp lg index reader corpus_docs avg_dl k b q_word qc =
     (case df index q_word of
        None \<Rightarrow> Inl KeyError
      | Some n \<Rightarrow>
          (case read_posting_list index reader q_word of
             Inl e \<Rightarrow> Inl e
           | Inr pl \<Rightarrow>
               Inr (bm25_weight_fp index avg_dl k b
                      (lg (dbl (1 + corpus_docs) / (dbl n + Double (1 / 2)))), pl)))"





section \<open>The posting codec\<close>

lemma take4_drop:
  "i + 4 \<le> length b \<Longrightarrow> take 4 (drop i b) = [b ! i, b ! (i + 1), b ! (i + 2), b ! (i + 3)]"
  by (simp add: list_eq_iff_nth_eq nth_Cons' numeral_eq_Suc less_Suc_eq)

lemma take2_drop:
  "i + 2 \<le> length b \<Longrightarrow> take 2 (drop i b) = [b ! i, b ! (i + 1)]"
  by (simp add: list_eq_iff_nth_eq nth_Cons' numeral_eq_Suc less_Suc_eq)

lemma byte_bound: "unat (x :: byte) < 256"
  using unsigned_less [of x, where 'a = nat] by simp

lemma decode_posting_full:
  assumes "i * 6 + 6 \<le> length b"
  shows "decode_posting b i =
    (unat (b ! (i * 6)) * 2 ^ 24 + unat (b ! (i * 6 + 1)) * 2 ^ 16
       + unat (b ! (i * 6 + 2)) * 2 ^ 8 + unat (b ! (i * 6 + 3)),
     unat (b ! (i * 6 + 4)) * 2 ^ 8 + unat (b ! (i * 6 + 5)))"
proof -
  have a: "slice b (i * 6) (i * 6 + 4) = [b ! (i*6), b ! (i*6 + 1), b ! (i*6 + 2), b ! (i*6 + 3)]"
    using assms take4_drop [of "i * 6" b] by (simp add: slice_def add.commute)
  have c: "slice b (i * 6 + 4) ((i + 1) * 6) = [b ! (i*6 + 4), b ! (i*6 + 5)]"
    using assms take2_drop [of "i * 6 + 4" b] by (simp add: slice_def add.commute)
  show ?thesis
    unfolding decode_posting_def a c by (simp add: from_bytes_big_def)
qed

lemma decode_posting_take:
  assumes "i < n"
  shows "decode_posting (take (n * 6) b) i = decode_posting b i"
proof -
  have "i * 6 + 6 \<le> n * 6" using assms by simp
  then show ?thesis
    by (simp add: decode_posting_def slice_def take_drop min_def take_take) 
qed


text \<open>
  Claim C6.  When the reader answers the request for \<open>df(w) * 6\<close> bytes with at least that
  many, the decoder returns exactly \<open>df(w)\<close> entries; entry \<open>i\<close> is the big-endian unsigned
  32-bit value of bytes \<open>[6i, 6i+4)\<close> paired with the big-endian unsigned 16-bit value of bytes
  \<open>[6i+4, 6i+6)\<close>; the result depends on the reader only through its answer to that one
  request, and bytes past \<open>df(w) * 6\<close> do not matter.
\<close>

theorem read_posting_list_decodes:
  assumes "posting_locs inverted w = Some locs" and "df inverted w = Some n"
    and "reader locs (n * 6) = Inr b" and "n * 6 \<le> length b"
  shows "\<exists>pl. read_posting_list inverted reader w = Inr pl \<and> length pl = n \<and>
    (\<forall>i<n. pl ! i =
       (unat (b ! (i * 6)) * 2 ^ 24 + unat (b ! (i * 6 + 1)) * 2 ^ 16
          + unat (b ! (i * 6 + 2)) * 2 ^ 8 + unat (b ! (i * 6 + 3)),
        unat (b ! (i * 6 + 4)) * 2 ^ 8 + unat (b ! (i * 6 + 5)))
       \<and> fst (pl ! i) < 2 ^ 32 \<and> snd (pl ! i) < 2 ^ 16) \<and>
    (\<forall>reader' b'. reader' locs (n * 6) = Inr b' \<and> take (n * 6) b' = take (n * 6) b
       \<longrightarrow> read_posting_list inverted reader' w = Inr pl)"
proof -
  let ?pl = "map (decode_posting b) [0..<n]"
  have r: "read_posting_list inverted reader w = Inr ?pl"
    using assms by (simp add: read_posting_list_def)
  have e: "?pl ! i =
       (unat (b ! (i * 6)) * 2 ^ 24 + unat (b ! (i * 6 + 1)) * 2 ^ 16
          + unat (b ! (i * 6 + 2)) * 2 ^ 8 + unat (b ! (i * 6 + 3)),
        unat (b ! (i * 6 + 4)) * 2 ^ 8 + unat (b ! (i * 6 + 5)))" if "i < n" for i
    using that assms(4) decode_posting_full [of i b] by simp
  have bd: "fst (?pl ! i) < 2 ^ 32 \<and> snd (?pl ! i) < 2 ^ 16" if "i < n" for i
    unfolding e [OF that]
    using byte_bound [of "b ! (i * 6)"] byte_bound [of "b ! (i * 6 + 1)"]
      byte_bound [of "b ! (i * 6 + 2)"] byte_bound [of "b ! (i * 6 + 3)"]
      byte_bound [of "b ! (i * 6 + 4)"] byte_bound [of "b ! (i * 6 + 5)"]
    by simp
  have t: "read_posting_list inverted reader' w = Inr ?pl"
    if "reader' locs (n * 6) = Inr b'" and "take (n * 6) b' = take (n * 6) b" for reader' b'
  proof -
    have "map (decode_posting b') [0..<n] = map (decode_posting (take (n * 6) b')) [0..<n]"
      by (simp add: decode_posting_take)
    also have "\<dots> = map (decode_posting b) [0..<n]"
      unfolding that(2) by (simp add: decode_posting_take)
    finally show ?thesis using assms(1,2) that(1) by (simp add: read_posting_list_def)
  qed
  show ?thesis using r e bd t by (intro exI [of _ ?pl]) simp
qed

lemma upt2: "[0..<2] = [0, 1]" by (simp add: upt_rec)

theorem read_posting_list_decodes_witness:
  "read_posting_list cat_index padded_reader ''cat'' = Inr [(7, 3), (0, 0)]
   \<and> read_posting_list cat_index exact_reader ''cat'' = Inr [(7, 3), (0, 0)]"
proof -
  have 1: "posting_locs cat_index ''cat'' = Some 0" by (simp add: cat_index_def)
  have 2: "df cat_index ''cat'' = Some 2" by (simp add: cat_index_def)
  have 3: "padded_reader 0 (2 * 6) = Inr cat_segment" by (simp add: padded_reader_def)
  have 4: "2 * 6 \<le> length cat_segment" by (simp add: cat_segment_def)
  have 5: "exact_reader 0 (2 * 6) = Inr (take 12 cat_segment)" by (simp add: exact_reader_def)
  obtain pl where pl: "read_posting_list cat_index padded_reader ''cat'' = Inr pl"
    "length pl = 2"
    "\<forall>i<2. pl ! i =
       (unat (cat_segment ! (i * 6)) * 2 ^ 24 + unat (cat_segment ! (i * 6 + 1)) * 2 ^ 16
          + unat (cat_segment ! (i * 6 + 2)) * 2 ^ 8 + unat (cat_segment ! (i * 6 + 3)),
        unat (cat_segment ! (i * 6 + 4)) * 2 ^ 8 + unat (cat_segment ! (i * 6 + 5)))
       \<and> fst (pl ! i) < 2 ^ 32 \<and> snd (pl ! i) < 2 ^ 16"
    "\<forall>reader' b'. reader' 0 (2 * 6) = Inr b' \<and> take (2 * 6) b' = take (2 * 6) cat_segment
       \<longrightarrow> read_posting_list cat_index reader' ''cat'' = Inr pl"
    using read_posting_list_decodes
      [of cat_index "''cat''" 0 2 padded_reader cat_segment, OF 1 2 3 4] by blast
  have "pl ! 0 = (7, 3)" "pl ! 1 = (0, 0)"
    using pl(3) by (simp_all add: cat_segment_def)
  then have "pl = [(7, 3), (0, 0)]"
    using pl(2) by (simp add: list_eq_iff_nth_eq numeral_2_eq_2 less_Suc_eq)
  moreover have "read_posting_list cat_index exact_reader ''cat'' = Inr pl"
    using pl(4) 5 by simp
  ultimately show ?thesis using pl(1) by simp
qed

lemma decode_posting_beyond:
  assumes "length b \<le> i * 6"
  shows "decode_posting b i = (0, 0)"
  using assms by (simp add: decode_posting_def slice_def from_bytes_big_def)

text \<open>
  Claim C2, as the code has it.  A read that returns fewer than \<open>df(w) * 6\<close> bytes is not an
  error: the decoder still returns \<open>df(w)\<close> entries, every record that lies wholly inside the
  bytes decoded as usual and every record that lies wholly past them decoded as \<open>(0, 0)\<close>.
\<close>

theorem read_posting_list_short_read:
  assumes "posting_locs inverted w = Some locs" and "df inverted w = Some n"
    and "reader locs (n * 6) = Inr b" and "length b < n * 6"
  shows "\<exists>pl. read_posting_list inverted reader w = Inr pl \<and> length pl = n \<and>
    (\<forall>i<n. length b \<le> i * 6 \<longrightarrow> pl ! i = (0, 0)) \<and>
    (\<forall>i<n. i * 6 + 6 \<le> length b \<longrightarrow> pl ! i =
       (unat (b ! (i * 6)) * 2 ^ 24 + unat (b ! (i * 6 + 1)) * 2 ^ 16
          + unat (b ! (i * 6 + 2)) * 2 ^ 8 + unat (b ! (i * 6 + 3)),
        unat (b ! (i * 6 + 4)) * 2 ^ 8 + unat (b ! (i * 6 + 5))))"
  using assms
  by (simp add: read_posting_list_def decode_posting_beyond decode_posting_full)

theorem read_posting_list_short_read_witness:
  "\<exists>pl. read_posting_list cat_index short_reader ''cat'' = Inr pl \<and> length pl = 2 \<and>
     pl ! 1 = (0, 0) \<and> pl ! 0 = (7, 3)"
proof -
  have 1: "posting_locs cat_index ''cat'' = Some 0" by (simp add: cat_index_def)
  have 2: "df cat_index ''cat'' = Some 2" by (simp add: cat_index_def)
  have 3: "short_reader 0 (2 * 6) = Inr [0, 0, 0, 7, 0, 3]"
    by (simp add: short_reader_def cat_segment_def)
  have 4: "length [0 :: byte, 0, 0, 7, 0, 3] < 2 * 6" by simp
  show ?thesis
    using read_posting_list_short_read
      [of cat_index "''cat''" 0 2 short_reader "[0, 0, 0, 7, 0, 3]", OF 1 2 3 4] by fastforce
qed

theorem truncated_read_counterexample:
  "short_reader 0 (2 * 6) = Inr [0, 0, 0, 7, 0, 3]
   \<and> read_posting_list cat_index short_reader ''cat'' = Inr [(7, 3), (0, 0)]
   \<and> OPT_Tfidf [''cat''] cat_index short_reader 10 100 = Inr [7]"
  by (simp add: short_reader_def cat_segment_def read_posting_list_def cat_index_def upt2
      decode_posting_def slice_def from_bytes_big_def OPT_Tfidf_def OPT_Tfidf_scores_def
      Counter_def top_docs_def sorted_desc_def)

section \<open>The empty query\<close>

text \<open>
  Claim C3, as the code has it.  On the empty query no loop body runs, so no division is
  evaluated, and every ranking function returns the empty ranking.
\<close>

theorem empty_query_returns_empty:
  "OPT_Tfidf [] index reader corpus_docs N = Inr []
   \<and> opt_BM25 [] index reader corpus_docs avg_dl k b N = Inr []
   \<and> opt_BM25_for_joint [] index corpus_docs avg_dl reader k b N = Inr []
   \<and> OPT_Cosine [] index reader N = Inr []"
  by (simp add: OPT_Tfidf_def OPT_Tfidf_scores_def opt_BM25_def opt_BM25_for_joint_def
      calc_BM25_def OPT_Cosine_def OPT_Cosine_scores_def Counter_def top_docs_def top_pairs_def
      sorted_desc_def)

theorem empty_query_returns_empty_witness:
  "OPT_Tfidf [] cat_index exact_reader 10 100 = Inr []
   \<and> opt_BM25 [] cat_index exact_reader 10 50 3 0.25 100 = Inr []
   \<and> opt_BM25_for_joint [] cat_index 10 50 exact_reader 3 0.25 100 = Inr []
   \<and> OPT_Cosine [] cat_index exact_reader 100 = Inr []"
  using empty_query_returns_empty [of cat_index exact_reader 10 100 50 3 "0.25"] by simp

theorem empty_query_counterexample:
  "OPT_Tfidf [] cat_index exact_reader 0 100 = Inr []
   \<and> OPT_Cosine [] cat_index exact_reader 100 = Inr []"
  by (simp add: OPT_Tfidf_def OPT_Tfidf_scores_def OPT_Cosine_def OPT_Cosine_scores_def
      Counter_def top_docs_def sorted_desc_def)

section \<open>Dicts and the query counter\<close>

lemma add_score_keys:
  "map fst (add_score m d v) = (if d \<in> fst ` set m then map fst m else map fst m @ [d])"
  by (induction m) (auto simp: rev_image_eqI)

lemma add_score_key_set: "fst ` set (add_score m d v) = insert d (fst ` set m)"
  using add_score_keys [of m d v] by (metis (no_types, lifting) insert_absorb list.set_map
      Un_insert_right append_Nil2 list.simps(15) set_append)

lemma add_score_distinct:
  "distinct (map fst m) \<Longrightarrow> distinct (map fst (add_score m d v))"
  by (simp add: add_score_keys)

lemma add_score_length: "length m \<le> length (add_score m d v)"
  by (induction m) auto

lemma score_of_add_score:
  fixes v :: "'a::monoid_add"
  shows "score_of (add_score m d v) d' = score_of m d' + (if d' = d then v else 0)"
  by (induction m) (auto simp: score_of_def)

lemma score_of_distinct:
  "distinct (map fst m) \<Longrightarrow> (d, s) \<in> set m \<Longrightarrow> score_of m d = s"
  by (simp add: score_of_def)

lemma score_of_absent: "d \<notin> fst ` set m \<Longrightarrow> score_of m d = 0"
  by (simp add: score_of_def map_of_eq_None_iff [THEN iffD2])

lemma counter_fold_keys:
  "fst ` set (foldl (\<lambda>c w. add_score c w (1::nat)) c q) = fst ` set c \<union> set q"
  by (induction q arbitrary: c) (auto simp: add_score_key_set)

lemma counter_fold_distinct:
  "distinct (map fst c) \<Longrightarrow> distinct (map fst (foldl (\<lambda>c w. add_score c w (1::nat)) c q))"
  by (induction q arbitrary: c) (auto simp: add_score_distinct)

lemma counter_fold_score:
  "score_of (foldl (\<lambda>c w. add_score c w (1::nat)) c q) w = score_of c w + count_list q w"
  by (induction q arbitrary: c) (auto simp: score_of_add_score)

lemma Counter_keys: "fst ` set (Counter q) = set q"
  unfolding Counter_def using counter_fold_keys [of "[]" q] by simp

lemma Counter_distinct: "distinct (map fst (Counter q))"
  unfolding Counter_def using counter_fold_distinct [of "[]" q] by simp

lemma Counter_count: "(w, c) \<in> set (Counter q) \<Longrightarrow> c = count_list q w"
  using score_of_distinct [OF Counter_distinct, of w c q] counter_fold_score [of "[]" q w]
  by (simp add: Counter_def score_of_def)

lemma Counter_as_map: "Counter q = map (\<lambda>w. (w, count_list q w)) (map fst (Counter q))"
  by (simp add: list_eq_iff_nth_eq) (metis Counter_count nth_mem prod.collapse)

lemma Counter_sum:
  fixes f :: "token \<Rightarrow> nat \<Rightarrow> 'a::comm_monoid_add"
  shows "(\<Sum>(w, c) \<leftarrow> Counter q. f w c) = (\<Sum>w \<in> set q. f w (count_list q w))"
proof -
  have "(\<Sum>(w, c) \<leftarrow> Counter q. f w c)
      = (\<Sum>(w, c) \<leftarrow> map (\<lambda>w. (w, count_list q w)) (map fst (Counter q)). f w c)"
    using Counter_as_map [of q] by simp
  also have "\<dots> = (\<Sum>w \<leftarrow> map fst (Counter q). f w (count_list q w))"
    by (simp add: comp_def)
  also have "\<dots> = (\<Sum>w \<in> set (map fst (Counter q)). f w (count_list q w))"
    by (rule sum_list_distinct_conv_sum_set [OF Counter_distinct])
  finally show ?thesis using Counter_keys [of q] by simp
qed

section \<open>The merge skeleton and the three models as its instances\<close>

lemma accumulate_fails:
  "(\<exists>e. accumulate wt pl m = Inl e) \<longleftrightarrow> posting_fails wt pl"
  by (induction wt pl m rule: accumulate.induct)
    (auto simp: posting_fails_def split: sum.splits)

lemma accumulate_keys:
  "accumulate wt pl m = Inr m' \<Longrightarrow> fst ` set m' = fst ` set m \<union> {d \<in> fst ` set pl. d \<noteq> 0}"
  by (induction wt pl m rule: accumulate.induct)
    (auto simp: add_score_key_set split: sum.splits if_splits)

lemma accumulate_distinct:
  "accumulate wt pl m = Inr m' \<Longrightarrow> distinct (map fst m) \<Longrightarrow> distinct (map fst m')"
  by (induction wt pl m rule: accumulate.induct)
    (auto simp: add_score_distinct split: sum.splits if_splits)

lemma accumulate_score:
  "accumulate wt pl m = Inr m' \<Longrightarrow> score_of m' d = score_of m d + posting_sum wt pl d"
  by (induction wt pl m rule: accumulate.induct)
    (auto simp: score_of_add_score posting_sum_def weight_of_def add.assoc
      split: sum.splits if_splits)

lemma merge_terms_fails:
  "(\<exists>e. merge_terms known plan ts m = Inl e)
     \<longleftrightarrow> (\<exists>(w, qc) \<in> set ts. known w \<and> plan_fails (plan w qc))"
proof (induction known plan ts m rule: merge_terms.induct)
  case (1 known plan m)
  show ?case by simp
next
  case (2 known plan q_word qc ts m)
  show ?case
  proof (cases "known q_word")
    case False
    then show ?thesis using 2(2) by simp
  next
    case True
    show ?thesis
    proof (cases "plan q_word qc")
      case (Inl e)
      then show ?thesis using True by (simp add: plan_fails_def)
    next
      case (Inr p)
      obtain wt pl where p: "p = (wt, pl)" by (cases p)
      show ?thesis
      proof (cases "accumulate wt pl m")
        case (Inl e)
        then have "posting_fails wt pl" using accumulate_fails [of wt pl m] by auto
        then show ?thesis using True Inr p Inl by (simp add: plan_fails_def)
      next
        case acc: (Inr m')
        then have "\<not> posting_fails wt pl" using accumulate_fails [of wt pl m] by auto
        then show ?thesis
          using True Inr p acc 2(1) [OF True Inr p [symmetric] acc]
          by (simp add: plan_fails_def)
      qed
    qed
  qed
qed

lemma merge_terms_keys:
  "merge_terms known plan ts m = Inr m' \<Longrightarrow>
     fst ` set m' = fst ` set m \<union> (\<Union>(w, qc) \<in> set ts. if known w then plan_docs (plan w qc) else {})"
proof (induction known plan ts m rule: merge_terms.induct)
  case (1 known plan m)
  then show ?case by simp
next
  case (2 known plan q_word qc ts m)
  show ?case
  proof (cases "known q_word")
    case False
    then show ?thesis using 2(2) [OF False] 2(3) by simp
  next
    case True
    then obtain wt pl m1 where p: "plan q_word qc = Inr (wt, pl)"
      and a: "accumulate wt pl m = Inr m1" and r: "merge_terms known plan ts m1 = Inr m'"
      using 2(3) by (auto split: sum.splits)
    have "fst ` set m' = fst ` set m1 \<union> (\<Union>(w, qc) \<in> set ts. if known w then plan_docs (plan w qc) else {})"
      using 2(1) [OF True p refl a r] .
    then show ?thesis
      using accumulate_keys [OF a] True p by (auto simp: plan_docs_def)
  qed
qed

lemma merge_terms_distinct:
  "merge_terms known plan ts m = Inr m' \<Longrightarrow> distinct (map fst m) \<Longrightarrow> distinct (map fst m')"
proof (induction known plan ts m rule: merge_terms.induct)
  case (1 known plan m)
  then show ?case by simp
next
  case (2 known plan q_word qc ts m)
  show ?case
  proof (cases "known q_word")
    case False
    then show ?thesis using 2(2) [OF False] 2(3,4) by simp
  next
    case True
    then obtain wt pl m1 where p: "plan q_word qc = Inr (wt, pl)"
      and a: "accumulate wt pl m = Inr m1" and r: "merge_terms known plan ts m1 = Inr m'"
      using 2(3) by (auto split: sum.splits)
    show ?thesis
      using 2(1) [OF True p refl a r] accumulate_distinct [OF a 2(4)] .
  qed
qed

lemma merge_terms_score:
  "merge_terms known plan ts m = Inr m' \<Longrightarrow>
     score_of m' d = score_of m d + (\<Sum>(w, qc) \<leftarrow> ts. if known w then plan_sum (plan w qc) d else 0)"
proof (induction known plan ts m rule: merge_terms.induct)
  case (1 known plan m)
  then show ?case by simp
next
  case (2 known plan q_word qc ts m)
  show ?case
  proof (cases "known q_word")
    case False
    then show ?thesis using 2(2) [OF False] 2(3) by simp
  next
    case True
    then obtain wt pl m1 where p: "plan q_word qc = Inr (wt, pl)"
      and a: "accumulate wt pl m = Inr m1" and r: "merge_terms known plan ts m1 = Inr m'"
      using 2(3) by (auto split: sum.splits)
    show ?thesis
      using 2(1) [OF True p refl a r] accumulate_score [OF a, of d] True p
      by (simp add: plan_sum_def add.assoc)
  qed
qed

lemma merge_terms_filter:
  "merge_terms known plan (filter (\<lambda>t. known (fst t)) ts) m = merge_terms known plan ts m"
  by (induction known plan ts m rule: merge_terms.induct) (auto split: sum.splits)

lemma tfidf_postings_accumulate:
  "tfidf_postings index cd w qc pl m = accumulate (tfidf_weight index cd w qc) pl m"
  by (induction index cd w qc pl m rule: tfidf_postings.induct)
    (auto simp: tfidf_weight_def split: option.splits)

lemma tfidf_terms_merge:
  "tfidf_terms index reader cd ts m = merge_terms (in_vocabulary index) (tfidf_plan index reader cd) ts m"
  by (induction index reader cd ts m rule: tfidf_terms.induct)
    (auto simp: in_vocabulary_def tfidf_plan_def tfidf_postings_accumulate split: sum.splits)

lemma bm25_postings_accumulate:
  "bm25_postings index avg k b q_idf pl m = accumulate (bm25_weight index avg k b q_idf) pl m"
  by (induction index avg k b q_idf pl m rule: bm25_postings.induct)
    (auto simp: bm25_weight_def split: option.splits)

lemma bm25_terms_merge:
  "bm25_terms index reader cd avg k b ts m
     = merge_terms (in_vocabulary index) (bm25_plan index reader cd avg k b) ts m"
  by (induction index reader cd avg k b ts m rule: bm25_terms.induct)
    (auto simp: in_vocabulary_def bm25_plan_def bm25_postings_accumulate split: sum.splits option.splits)

lemma cosine_postings_accumulate:
  "Inr (cosine_postings qc pl m) = accumulate (\<lambda>doc_id word_count. Inr (word_count * qc)) pl m"
  by (induction qc pl m rule: cosine_postings.induct) auto

lemma cosine_terms_merge:
  "cosine_terms index reader ts m = merge_terms (in_vocabulary index) (cosine_plan index reader) ts m"
  by (induction index reader ts m rule: cosine_terms.induct)
    (auto simp: in_vocabulary_def cosine_plan_def cosine_postings_accumulate [symmetric] split: sum.splits)

lemma plan_docs_nonzero: "0 \<notin> plan_docs p"
  by (auto simp: plan_docs_def split: sum.splits)

lemma merge_terms_no_sentinel:
  assumes "merge_terms kn plan ts [] = Inr m"
  shows "0 \<notin> fst ` set m"
proof
  assume "0 \<in> fst ` set m"
  then have "0 \<in> (\<Union>(w, qc) \<in> set ts. if kn w then plan_docs (plan w qc) else {})"
    using merge_terms_keys [OF assms] by simp
  then obtain w qc where "0 \<in> plan_docs (plan w qc)"
    by (auto split: if_splits)
  then show False using plan_docs_nonzero by blast
qed

lemma tfidf_normalize_map:
  "tfidf_normalize index n m = Inr m' \<Longrightarrow> map fst m' = map fst m"
  by (induction index n m arbitrary: m' rule: tfidf_normalize.induct)
    (auto split: if_splits option.splits sum.splits)

lemma cosine_normalize_map:
  "cosine_normalize index qn m = Inr m' \<Longrightarrow> map fst m' = map fst m"
  by (induction index qn m arbitrary: m' rule: cosine_normalize.induct)
    (auto split: if_splits option.splits sum.splits)

lemma keys_of_map: "map fst m' = map fst m \<Longrightarrow> fst ` set m' = fst ` set m"
  by (metis list.set_map)

lemma OPT_Tfidf_scores_keys:
  assumes "OPT_Tfidf_scores q index reader cd = Inr m"
  shows "0 \<notin> fst ` set m" and "distinct (map fst m)"
proof -
  obtain m0 where a: "merge_terms (in_vocabulary index) (tfidf_plan index reader cd) (Counter q) [] = Inr m0"
    and b: "tfidf_normalize index (length q) m0 = Inr m"
    using assms by (auto simp: OPT_Tfidf_scores_def tfidf_terms_merge split: sum.splits)
  show "0 \<notin> fst ` set m"
    using merge_terms_no_sentinel [OF a] keys_of_map [OF tfidf_normalize_map [OF b]] by simp
  show "distinct (map fst m)"
    using merge_terms_distinct [OF a] tfidf_normalize_map [OF b] by simp
qed

lemma calc_BM25_keys:
  assumes "calc_BM25 q index reader cd avg k b = Inr m"
  shows "0 \<notin> fst ` set m" and "distinct (map fst m)"
proof -
  have a: "merge_terms (in_vocabulary index) (bm25_plan index reader cd avg k b) (Counter q) [] = Inr m"
    using assms by (simp add: calc_BM25_def bm25_terms_merge)
  show "0 \<notin> fst ` set m" using merge_terms_no_sentinel [OF a] .
  show "distinct (map fst m)" using merge_terms_distinct [OF a] by simp
qed

lemma OPT_Cosine_scores_keys:
  assumes "OPT_Cosine_scores q index reader = Inr m"
  shows "0 \<notin> fst ` set m" and "distinct (map fst m)"
proof -
  obtain m0 where a: "merge_terms (in_vocabulary index) (cosine_plan index reader) (Counter q) [] = Inr m0"
    and b: "cosine_normalize index (query_norm q) m0 = Inr m"
    using assms by (auto simp: OPT_Cosine_scores_def cosine_terms_merge split: sum.splits)
  show "0 \<notin> fst ` set m"
    using merge_terms_no_sentinel [OF a] keys_of_map [OF cosine_normalize_map [OF b]] by simp
  show "distinct (map fst m)"
    using merge_terms_distinct [OF a] cosine_normalize_map [OF b] by simp
qed

section \<open>Top-N selection\<close>

lemma top_docs_take: "top_docs m N = map fst (take N (sorted_desc m))"
  by (simp add: top_docs_def sorted_desc_def take_map)

lemma top_pairs_take: "top_pairs m N = take N (sorted_desc m)"
  by (simp add: top_pairs_def sorted_desc_def)

lemma top_docs_pairs: "top_docs m N = map fst (top_pairs m N)"
  by (simp add: top_docs_take top_pairs_take)

lemma set_sorted_desc: "set (sorted_desc m) = set m"
  by (simp add: sorted_desc_def)

lemma top_docs_subset: "set (top_docs m N) \<subseteq> fst ` set m"
  using set_take_subset [of N "sorted_desc m"] by (auto simp: top_docs_take set_sorted_desc)

lemma top_pairs_subset: "set (top_pairs m N) \<subseteq> set m"
  using set_take_subset [of N "sorted_desc m"] by (auto simp: top_pairs_take set_sorted_desc)

lemma sorted_desc_sorted: "sorted_wrt (\<lambda>p p'. snd p' \<le> snd p) (sorted_desc m)"
proof -
  have "sorted (map (\<lambda>p. - snd p) (sorted_desc m))"
    unfolding sorted_desc_def by (rule sorted_sort_key)
  then show ?thesis by (simp add: sorted_map)
qed

lemma sorted_desc_distinct:
  assumes "distinct (map fst m)"
  shows "distinct (map fst (sorted_desc m))"
  using assms by (simp add: sorted_desc_def distinct_map)

lemma top_n_of_top_docs:
  assumes dm: "distinct (map fst m)"
  shows "top_n_of m N (top_docs m N)"
proof -
  let ?s = "sorted_desc m"
  have len: "length ?s = length m" by (simp add: sorted_desc_def)
  have ds: "distinct (map fst ?s)" using sorted_desc_distinct [OF dm] .
  have sc: "score_of m (fst p) = snd p" if "p \<in> set ?s" for p
    using that score_of_distinct [OF dm, of "fst p" "snd p"] by (simp add: set_sorted_desc)
  have split: "?s = take N ?s @ drop N ?s" by simp
  have sw: "sorted_wrt (\<lambda>p p'. snd p' \<le> snd p) (take N ?s @ drop N ?s)"
    using sorted_desc_sorted [of m] by simp
  have st: "sorted_wrt (\<lambda>p p'. snd p' \<le> snd p) (take N ?s)"
    using sw unfolding sorted_wrt_append by blast
  have 1: "length m \<le> N \<longrightarrow> set (top_docs m N) = fst ` set m \<and> length (top_docs m N) = length m"
    using len by (simp add: top_docs_take set_sorted_desc)
  have 2: "N < length m \<longrightarrow> length (top_docs m N) = N"
    using len by (simp add: top_docs_take)
  have 3: "distinct (top_docs m N)"
    using ds distinct_take [of "map fst ?s" N] by (simp add: top_docs_take take_map)
  have 4: "sorted_wrt (\<lambda>d d'. score_of m d' \<le> score_of m d) (top_docs m N)"
  proof -
    have "sorted_wrt (\<lambda>p p'. score_of m (fst p') \<le> score_of m (fst p)) (take N ?s)"
    proof (rule sorted_wrt_mono_rel [OF _ st])
      fix p p' assume "p \<in> set (take N ?s)" "p' \<in> set (take N ?s)" "snd p' \<le> snd p"
      then have "p \<in> set ?s" "p' \<in> set ?s" "snd p' \<le> snd p"
        by (auto dest: in_set_takeD)
      then show "score_of m (fst p') \<le> score_of m (fst p)"
        using sc [of p] sc [of p'] by simp
    qed
    then show ?thesis by (simp add: top_docs_take sorted_wrt_map)
  qed
  have 5: "score_of m d' \<le> score_of m d"
    if "d \<in> set (top_docs m N)" and "d' \<in> fst ` set m - set (top_docs m N)" for d d'
  proof -
    have "d \<in> fst ` set (take N ?s)" using that(1) by (simp add: top_docs_take)
    then obtain p where p: "p \<in> set (take N ?s)" "d = fst p" by blast
    have "d' \<in> fst ` set ?s" using that(2) by (simp add: set_sorted_desc)
    then obtain p' where p': "p' \<in> set ?s" "d' = fst p'" by blast
    have "d' \<notin> fst ` set (take N ?s)" using that(2) by (simp add: top_docs_take)
    then have "p' \<notin> set (take N ?s)" using p'(2) by blast
    moreover have "set ?s = set (take N ?s) \<union> set (drop N ?s)"
      using set_append [of "take N ?s" "drop N ?s"] by simp
    ultimately have "p' \<in> set (drop N ?s)"
      using p'(1) by blast
    then have le: "snd p' \<le> snd p"
      using sw p(1) unfolding sorted_wrt_append by blast
    have "p \<in> set ?s" using p(1) by (rule in_set_takeD)
    then show ?thesis
      using sc [of p] sc [OF p'(1)] p(2) p'(2) le by simp
  qed
  show ?thesis
    unfolding top_n_of_def using 1 2 3 4 5 top_docs_subset [of m N] by blast
qed

text \<open>
  Claim C7.  For the score map \<open>m\<close> that a model has built, the returned ranking holds all
  its documents when there are at most \<open>N\<close> and exactly \<open>N\<close> otherwise; it is sorted by
  descending score, and no document left out scores higher than a returned one.
\<close>

theorem top_n_selection:
  "(OPT_Tfidf_scores q index reader cd = Inr m \<longrightarrow>
      (\<exists>r. OPT_Tfidf q index reader cd N = Inr r \<and> top_n_of m N r))
   \<and> (calc_BM25 q index reader cd avg 3 0.25 = Inr m \<longrightarrow>
      (\<exists>r. opt_BM25 q index reader cd avg k b N = Inr r \<and> top_n_of m N r)
      \<and> (\<exists>ps. opt_BM25_for_joint q index cd avg reader k b N = Inr ps
            \<and> set ps \<subseteq> set m \<and> top_n_of m N (map fst ps)))
   \<and> (OPT_Cosine_scores q index reader = Inr m \<longrightarrow>
      (\<exists>r. OPT_Cosine q index reader N = Inr r \<and> top_n_of m N r))"
  using top_n_of_top_docs [of m N] OPT_Tfidf_scores_keys(2) [of q index reader cd m]
    calc_BM25_keys(2) [of q index reader cd avg 3 "0.25" m]
    OPT_Cosine_scores_keys(2) [of q index reader m] top_pairs_subset [of m N]
  by (auto simp: OPT_Tfidf_def opt_BM25_def opt_BM25_for_joint_def OPT_Cosine_def
      top_docs_pairs [symmetric])

lemma upt3: "[0..<3] = [0, 1, 2]" by (simp add: upt_rec)

lemma zoo_postings: "read_posting_list zoo_index zoo_reader ''cat'' = Inr [(1, 2), (2, 5), (3, 1)]"
  by (simp add: read_posting_list_def zoo_index_def zoo_reader_def zoo_segment_def upt3
      decode_posting_def slice_def from_bytes_big_def)

lemma Counter_cat: "Counter [''cat''] = [(''cat'', 1)]"
  by (simp add: Counter_def)

lemma query_norm_cat: "query_norm [''cat''] = 1"
  by (simp add: query_norm_def Counter_cat)

lemma zoo_cosine_scores:
  "OPT_Cosine_scores [''cat''] zoo_index zoo_reader = Inr [(1, 2), (2, 5), (3, 1)]"
  by (simp add: OPT_Cosine_scores_def Counter_cat zoo_postings query_norm_cat)
    (simp add: zoo_index_def)

lemma zoo_cosine_top2: "OPT_Cosine [''cat''] zoo_index zoo_reader 2 = Inr [2, 1]"
  by (simp add: OPT_Cosine_def zoo_cosine_scores top_docs_def sorted_desc_def)

lemma zoo_tfidf_scores:
  "OPT_Tfidf_scores [''cat''] zoo_index zoo_reader 30 = Inr [(1, 1 / 5), (2, 1 / 2), (3, 1 / 10)]"
  by (simp add: OPT_Tfidf_scores_def Counter_cat zoo_postings)
    (simp add: zoo_index_def)

theorem top_n_selection_witness:
  "OPT_Cosine_scores [''cat''] zoo_index zoo_reader = Inr [(1, 2), (2, 5), (3, 1)]
   \<and> OPT_Cosine [''cat''] zoo_index zoo_reader 2 = Inr [2, 1]
   \<and> top_n_of [(1, 2), (2, 5), (3, 1)] 2 [2, 1]
   \<and> OPT_Tfidf_scores [''cat''] zoo_index zoo_reader 30 = Inr [(1, 1 / 5), (2, 1 / 2), (3, 1 / 10)]
   \<and> (\<exists>r. OPT_Tfidf [''cat''] zoo_index zoo_reader 30 5 = Inr r
          \<and> top_n_of [(1, 1 / 5), (2, 1 / 2), (3, 1 / 10)] 5 r)"
  using top_n_selection [of "[''cat'']" zoo_index zoo_reader 30 "[(1, 2), (2, 5), (3, 1)]" 2 0 0 0]
    top_n_selection [of "[''cat'']" zoo_index zoo_reader 30 "[(1, 1 / 5), (2, 1 / 2), (3, 1 / 10)]" 5 0 0 0]
    zoo_cosine_scores zoo_cosine_top2 zoo_tfidf_scores
  by simp

section \<open>The sentinel document id\<close>

text \<open>
  Claim C9.  The sentinel document id 0 is never a key of the score map of any model and
  never occurs in a returned ranking, whatever the decoded posting lists contain (the index
  of the witness stores a record with document id 0).
\<close>

theorem sentinel_never_ranked:
  "(\<forall>m. OPT_Tfidf_scores q index reader cd = Inr m \<longrightarrow> 0 \<notin> fst ` set m)
   \<and> (\<forall>r. OPT_Tfidf q index reader cd N = Inr r \<longrightarrow> 0 \<notin> set r)
   \<and> (\<forall>m. calc_BM25 q index reader cd avg k b = Inr m \<longrightarrow> 0 \<notin> fst ` set m)
   \<and> (\<forall>r. opt_BM25 q index reader cd avg k b N = Inr r \<longrightarrow> 0 \<notin> set r)
   \<and> (\<forall>r. opt_BM25_for_joint q index cd avg reader k b N = Inr r \<longrightarrow> 0 \<notin> fst ` set r)
   \<and> (\<forall>m. OPT_Cosine_scores q index reader = Inr m \<longrightarrow> 0 \<notin> fst ` set m)
   \<and> (\<forall>r. OPT_Cosine q index reader N = Inr r \<longrightarrow> 0 \<notin> set r)"
proof -
  have t: "0 \<notin> set (top_docs m N)" if "0 \<notin> fst ` set m" for m
    using that top_docs_subset [of m N] by blast
  have p: "0 \<notin> fst ` set (top_pairs m N)" if "0 \<notin> fst ` set m" for m
    using that top_pairs_subset [of m N] by blast
  have 1: "\<forall>m. OPT_Tfidf_scores q index reader cd = Inr m \<longrightarrow> 0 \<notin> fst ` set m"
    using OPT_Tfidf_scores_keys(1) by blast
  have 2: "\<forall>m. calc_BM25 q index reader cd avg k b = Inr m \<longrightarrow> 0 \<notin> fst ` set m" for k b
    using calc_BM25_keys(1) by blast
  have 3: "\<forall>m. OPT_Cosine_scores q index reader = Inr m \<longrightarrow> 0 \<notin> fst ` set m"
    using OPT_Cosine_scores_keys(1) by blast
  have 4: "\<forall>r. OPT_Tfidf q index reader cd N = Inr r \<longrightarrow> 0 \<notin> set r"
    using 1 t by (auto simp: OPT_Tfidf_def split: sum.splits)
  have 5: "\<forall>r. opt_BM25 q index reader cd avg k b N = Inr r \<longrightarrow> 0 \<notin> set r"
    using 2 [of 3 "0.25"] t by (auto simp: opt_BM25_def split: sum.splits)
  have 6: "\<forall>r. opt_BM25_for_joint q index cd avg reader k b N = Inr r \<longrightarrow> 0 \<notin> fst ` set r"
    using 2 [of 3 "0.25"] p by (auto simp: opt_BM25_for_joint_def split: sum.splits)
  have 7: "\<forall>r. OPT_Cosine q index reader N = Inr r \<longrightarrow> 0 \<notin> set r"
    using 3 t by (auto simp: OPT_Cosine_def split: sum.splits)
  show ?thesis using 1 2 3 4 5 6 7 by blast
qed

lemma cat_postings: "read_posting_list cat_index exact_reader ''cat'' = Inr [(7, 3), (0, 0)]"
  by (simp add: read_posting_list_def cat_index_def exact_reader_def cat_segment_def upt2
      decode_posting_def slice_def from_bytes_big_def)

lemma cat_cosine_scores: "OPT_Cosine_scores [''cat''] cat_index exact_reader = Inr [(7, 1)]"
  by (simp add: OPT_Cosine_scores_def Counter_cat cat_postings query_norm_cat)
    (simp add: cat_index_def)

lemma cat_cosine: "OPT_Cosine [''cat''] cat_index exact_reader 100 = Inr [7]"
  by (simp add: OPT_Cosine_def cat_cosine_scores top_docs_def sorted_desc_def)

theorem sentinel_never_ranked_witness:
  "read_posting_list cat_index exact_reader ''cat'' = Inr [(7, 3), (0, 0)]
   \<and> OPT_Cosine [''cat''] cat_index exact_reader 100 = Inr [7]
   \<and> 0 \<notin> set [7 :: nat]"
proof -
  have "0 \<notin> set [7 :: nat]"
    using sentinel_never_ranked [of "[''cat'']" cat_index exact_reader 0 100 0 0 0] cat_cosine
    by blast
  then show ?thesis using cat_postings cat_cosine by simp
qed

section \<open>TF-IDF scores\<close>

lemma ln_10_split: "ln (10::real) = ln 2 + ln 5"
  using ln_mult [of "2::real" 5] by simp

lemma log10_5_lower: "339 / 485 < log 10 (5::real)"
proof -
  have a: "ln ((2::real) ^ 339) = real 339 * ln 2" by (rule ln_realpow)
  have b: "ln ((5::real) ^ 146) = real 146 * ln 5" by (rule ln_realpow)
  have "(2::real) ^ 339 < 5 ^ 146" by simp
  then have "ln ((2::real) ^ 339) < ln (5 ^ 146)"
    by (subst ln_less_cancel_iff) simp_all
  then have c: "real 339 * ln 2 < real 146 * ln (5::real)"
    unfolding a b .
  have p: "0 < ln (2::real) + ln 5" by (simp add: add_pos_pos)
  have "339 * (ln 2 + ln 5) < 485 * ln (5::real)" using c by simp
  then have "339 / 485 < ln (5::real) / (ln 2 + ln 5)"
    using p by (simp add: pos_less_divide_eq)
  then show ?thesis by (simp add: log_def ln_10_split)
qed

lemma log10_5_upper: "log 10 (5::real) < 137 / 196"
proof -
  have a: "ln ((2::real) ^ 137) = real 137 * ln 2" by (rule ln_realpow)
  have b: "ln ((5::real) ^ 59) = real 59 * ln 5" by (rule ln_realpow)
  have "(5::real) ^ 59 < 2 ^ 137" by simp
  then have "ln ((5::real) ^ 59) < ln (2 ^ 137)"
    by (subst ln_less_cancel_iff) simp_all
  then have c: "real 59 * ln 5 < real 137 * ln (2::real)"
    unfolding a b .
  have p: "0 < ln (2::real) + ln 5" by (simp add: add_pos_pos)
  have "196 * ln (5::real) < 137 * (ln 2 + ln 5)" using c by simp
  then have "ln (5::real) / (ln 2 + ln 5) < 137 / 196"
    using p by (simp add: pos_divide_less_eq)
  then show ?thesis by (simp add: log_def ln_10_split)
qed

lemma posting_sum_cong:
  assumes "\<And>d' wc. (d', wc) \<in> set pl \<Longrightarrow> d' \<noteq> 0 \<Longrightarrow> weight_of (wt d' wc) = g d' wc"
  shows "posting_sum wt pl d = (\<Sum>(d', wc) \<leftarrow> pl. if d' = d \<and> d' \<noteq> 0 then g d' wc else 0)"
  unfolding posting_sum_def
  by (rule arg_cong [where f = sum_list], rule map_cong) (auto simp: assms)

lemma merge_Counter_score:
  fixes plan :: "token \<Rightarrow> nat \<Rightarrow> error + (nat \<Rightarrow> nat \<Rightarrow> error + 'a::comm_monoid_add) \<times> posting list"
  assumes "merge_terms kn plan (Counter q) [] = Inr m"
  shows "score_of m d = (\<Sum>w \<in> set q. if kn w then plan_sum (plan w (count_list q w)) d else 0)"
  using merge_terms_score [OF assms, of d]
    Counter_sum [of "\<lambda>w c. if kn w then plan_sum (plan w c) d else 0" q]
  by (simp add: score_of_def)

lemma merge_Counter_keys:
  assumes "merge_terms kn plan (Counter q) [] = Inr m"
  shows "fst ` set m = (\<Union>w \<in> set q. if kn w then plan_docs (plan w (count_list q w)) else {})"
proof -
  have "(\<Union>(w, c) \<in> set (Counter q). if kn w then plan_docs (plan w c) else {})
      = (\<Union>w \<in> set q. if kn w then plan_docs (plan w (count_list q w)) else {})"
    (is "?L = ?R")
  proof (rule set_eqI, rule iffI)
    fix d assume "d \<in> ?L"
    then obtain w c where wc: "(w, c) \<in> set (Counter q)" "kn w" "d \<in> plan_docs (plan w c)"
      by (auto split: if_splits)
    have "w \<in> set q" using wc(1) Counter_keys [of q] by force
    then show "d \<in> ?R" using wc Counter_count [OF wc(1)] by auto
  next
    fix d assume "d \<in> ?R"
    then obtain w where w: "w \<in> set q" "kn w" "d \<in> plan_docs (plan w (count_list q w))"
      by (auto split: if_splits)
    then obtain c where c: "(w, c) \<in> set (Counter q)" using Counter_keys [of q] by force
    then show "d \<in> ?L" using w Counter_count [OF c] by force
  qed
  then show ?thesis using merge_terms_keys [OF assms] by simp
qed

lemma merge_Counter_ok:
  assumes "merge_terms kn plan (Counter q) [] = Inr m" and "w \<in> set q" and "kn w"
  shows "\<not> plan_fails (plan w (count_list q w))"
proof
  assume f: "plan_fails (plan w (count_list q w))"
  obtain c where c: "(w, c) \<in> set (Counter q)" using assms(2) Counter_keys [of q] by force
  then have "\<exists>(w, qc) \<in> set (Counter q). kn w \<and> plan_fails (plan w qc)"
    using f assms(3) Counter_count [OF c] by force
  then obtain e where "merge_terms kn plan (Counter q) [] = Inl e"
    using merge_terms_fails [of kn plan "Counter q" "[]"] by blast
  then show False using assms(1) by simp
qed

lemma tfidf_weight_value:
  assumes "\<not> isl (tfidf_weight index cd w c d wc)"
  shows "weight_of (tfidf_weight index cd w c d wc)
           = real c * real wc * log 10 (real cd / real (df_of index w))"
  using assms by (auto simp: tfidf_weight_def weight_of_def df_of_def split: option.splits if_splits)

lemma tfidf_plan_sum:
  assumes "\<not> plan_fails (tfidf_plan index reader cd w c)"
  shows "plan_sum (tfidf_plan index reader cd w c) d =
     (\<Sum>(d', wc) \<leftarrow> postings_of index reader w. if d' = d \<and> d' \<noteq> 0
        then real c * real wc * log 10 (real cd / real (df_of index w)) else 0)"
    and "plan_docs (tfidf_plan index reader cd w c)
           = {d \<in> fst ` set (postings_of index reader w). d \<noteq> 0}"
proof -
  obtain pl where pl: "read_posting_list index reader w = Inr pl"
    using assms by (cases "read_posting_list index reader w") (auto simp: plan_fails_def tfidf_plan_def)
  have nf: "\<not> posting_fails (tfidf_weight index cd w c) pl"
    using assms pl by (simp add: plan_fails_def tfidf_plan_def)
  have "posting_sum (tfidf_weight index cd w c) pl d =
     (\<Sum>(d', wc) \<leftarrow> pl. if d' = d \<and> d' \<noteq> 0
        then real c * real wc * log 10 (real cd / real (df_of index w)) else 0)"
  proof (rule posting_sum_cong)
    fix d' wc assume "(d', wc) \<in> set pl" "d' \<noteq> 0"
    then have "\<not> isl (tfidf_weight index cd w c d' wc)"
      using nf by (auto simp: posting_fails_def)
    then show "weight_of (tfidf_weight index cd w c d' wc)
        = real c * real wc * log 10 (real cd / real (df_of index w))"
      by (rule tfidf_weight_value)
  qed
  then show "plan_sum (tfidf_plan index reader cd w c) d =
     (\<Sum>(d', wc) \<leftarrow> postings_of index reader w. if d' = d \<and> d' \<noteq> 0
        then real c * real wc * log 10 (real cd / real (df_of index w)) else 0)"
    using pl by (simp add: plan_sum_def tfidf_plan_def postings_of_def)
  show "plan_docs (tfidf_plan index reader cd w c)
           = {d \<in> fst ` set (postings_of index reader w). d \<noteq> 0}"
    using pl by (simp add: plan_docs_def tfidf_plan_def postings_of_def)
qed

lemma tfidf_normalize_entries:
  "tfidf_normalize index n m = Inr m' \<Longrightarrow>
     m' = map (\<lambda>(d, s). (d, s * (1 / real n) * (1 / real (dl_of index d)))) m"
  by (induction index n m arbitrary: m' rule: tfidf_normalize.induct)
    (auto simp: dl_of_def split: if_splits option.splits sum.splits)

lemma tfidf_unnormalized:
  assumes "merge_terms (in_vocabulary index) (tfidf_plan index reader cd) (Counter q) [] = Inr m0"
  shows "score_of m0 d * (1 / real (length q)) * (1 / real (dl_of index d))
           = tfidf_spec_score q index reader cd d"
    and "fst ` set m0 = scored_docs index reader q"
proof -
  have ok: "\<not> plan_fails (tfidf_plan index reader cd w (count_list q w))"
    if "w \<in> set q" "in_vocabulary index w" for w
    using merge_Counter_ok [OF assms that] .
  have "score_of m0 d = (\<Sum>w \<in> set q. if in_vocabulary index w
          then plan_sum (tfidf_plan index reader cd w (count_list q w)) d else 0)"
    using merge_Counter_score [OF assms] .
  also have "\<dots> = (\<Sum>w \<in> set q. if term_total index w \<noteq> None then
        (\<Sum>(d', wc) \<leftarrow> postings_of index reader w. if d' = d \<and> d' \<noteq> 0
           then real (count_list q w) * real wc * log 10 (real cd / real (df_of index w))
           else 0)
      else 0)"
    by (rule sum.cong) (auto simp: tfidf_plan_sum(1) [OF ok] in_vocabulary_def)
  finally show "score_of m0 d * (1 / real (length q)) * (1 / real (dl_of index d))
           = tfidf_spec_score q index reader cd d"
    by (simp add: tfidf_spec_score_def)
  have "fst ` set m0 = (\<Union>w \<in> set q. if in_vocabulary index w
          then plan_docs (tfidf_plan index reader cd w (count_list q w)) else {})"
    using merge_Counter_keys [OF assms] .
  also have "\<dots> = scored_docs index reader q"
    unfolding scored_docs_def
    by (rule SUP_cong) (auto simp: tfidf_plan_sum(2) [OF ok] in_vocabulary_def)
  finally show "fst ` set m0 = scored_docs index reader q" .
qed

lemma normalized_entry:
  assumes "distinct (map fst m0)"
    and "(d, s) \<in> set (map (\<lambda>(d, s). (d, f d s)) m0)"
  shows "s = f d (score_of m0 d)"
proof -
  obtain s0 where s0: "(d, s0) \<in> set m0" "s = f d s0" using assms(2) by auto
  then show ?thesis using score_of_distinct [OF assms(1) s0(1)] by simp
qed

lemma Counter_cat_cat: "Counter [''cat'', ''cat''] = [(''cat'', 2)]"
  by (simp add: Counter_def)

lemma cat_tfidf_scores:
  "OPT_Tfidf_scores [''cat'', ''cat''] cat_index exact_reader 10
     = Inr [(7, 2 * (3 * log 10 5) * (1 / 2) * (1 / 50))]"
  by (simp add: OPT_Tfidf_scores_def Counter_cat_cat cat_postings)
    (simp add: cat_index_def)

text \<open>
  Claim C4.  The scores of \<open>OPT_Tfidf\<close> are the sums the specification describes, over the known
  query terms and the postings with a non-zero document id, normalised by the query length
  (duplicates counted) and the document length; and the worked example of the specification
  gives \<open>2 * (3 * log10 5) * (1/2) * (1/50)\<close>, where \<open>2 * (3 * log10 5)\<close> is 4.1938 to four places.
\<close>

theorem OPT_Tfidf_scores_formula:
  "(q \<noteq> [] \<and> OPT_Tfidf_scores q index reader corpus_docs = Inr m \<longrightarrow>
      fst ` set m = scored_docs index reader q
      \<and> (\<forall>(d, s) \<in> set m. s = tfidf_spec_score q index reader corpus_docs d))
   \<and> OPT_Tfidf_scores [''cat'', ''cat''] cat_index exact_reader 10
        = Inr [(7, 2 * (3 * log 10 5) * (1 / 2) * (1 / 50))]
   \<and> \<bar>2 * (3 * log 10 5) - 4.1938\<bar> < (1 / 10000 :: real)"
proof -
  have gen: "fst ` set m = scored_docs index reader q
      \<and> (\<forall>(d, s) \<in> set m. s = tfidf_spec_score q index reader corpus_docs d)"
    if r: "OPT_Tfidf_scores q index reader corpus_docs = Inr m"
  proof -
    obtain m0 where a: "merge_terms (in_vocabulary index) (tfidf_plan index reader corpus_docs)
          (Counter q) [] = Inr m0"
      and b: "tfidf_normalize index (length q) m0 = Inr m"
      using r by (auto simp: OPT_Tfidf_scores_def tfidf_terms_merge split: sum.splits)
    have d0: "distinct (map fst m0)" using merge_terms_distinct [OF a] by simp
    have e: "m = map (\<lambda>(d, s). (d, s * (1 / real (length q)) * (1 / real (dl_of index d)))) m0"
      using tfidf_normalize_entries [OF b] .
    have k: "fst ` set m = scored_docs index reader q"
      using tfidf_unnormalized(2) [OF a] keys_of_map [OF tfidf_normalize_map [OF b]] by simp
    have "s = tfidf_spec_score q index reader corpus_docs d" if "(d, s) \<in> set m" for d s
      using normalized_entry [OF d0, of d s "\<lambda>d s. s * (1 / real (length q)) * (1 / real (dl_of index d))"]
        that e tfidf_unnormalized(1) [OF a, of d] by simp
    then show ?thesis using k by blast
  qed
  have "\<bar>2 * (3 * log 10 5) - 4.1938\<bar> < (1 / 10000 :: real)"
    using log10_5_lower log10_5_upper by (simp add: abs_less_iff)
  then show ?thesis using gen cat_tfidf_scores by blast
qed

theorem OPT_Tfidf_scores_formula_witness:
  "OPT_Tfidf_scores [''cat'', ''cat''] cat_index exact_reader 10
     = Inr [(7, 2 * (3 * log 10 5) * (1 / 2) * (1 / 50))]
   \<and> scored_docs cat_index exact_reader [''cat'', ''cat''] = {7}
   \<and> tfidf_spec_score [''cat'', ''cat''] cat_index exact_reader 10 7
        = 2 * (3 * log 10 5) * (1 / 2) * (1 / 50)"
  using OPT_Tfidf_scores_formula [of "[''cat'', ''cat'']" cat_index exact_reader 10
      "[(7, 2 * (3 * log 10 5) * (1 / 2) * (1 / 50))]"]
  by simp

section \<open>Cosine scores\<close>

lemma query_norm_spec: "query_norm q = cosine_spec_norm q"
proof -
  have "(\<Sum>item \<leftarrow> Counter q. (real (snd item) / real (length q))\<^sup>2)
      = (\<Sum>(w, c) \<leftarrow> Counter q. (real c / real (length q))\<^sup>2)"
    by (rule arg_cong [where f = sum_list], rule map_cong) auto
  also have "\<dots> = (\<Sum>w \<in> set q. (real (count_list q w) / real (length q))\<^sup>2)"
    by (rule Counter_sum)
  finally show ?thesis by (simp only: query_norm_def cosine_spec_norm_def)
qed

lemma weight_of_Inr: "weight_of (Inr v) = v"
  by (simp add: weight_of_def)

lemma cosine_plan_sum:
  "plan_sum (cosine_plan index reader w c) d =
     (\<Sum>(d', wc) \<leftarrow> postings_of index reader w. if d' = d \<and> d' \<noteq> 0 then wc * c else 0)"
  by (cases "read_posting_list index reader w")
    (simp_all add: plan_sum_def cosine_plan_def postings_of_def posting_sum_def weight_of_Inr
      cong: if_cong)

lemma cosine_plan_docs:
  "plan_docs (cosine_plan index reader w c)
     = {d \<in> fst ` set (postings_of index reader w). d \<noteq> 0}"
  by (cases "read_posting_list index reader w")
    (simp_all add: plan_docs_def cosine_plan_def postings_of_def)

lemma cosine_normalize_entries:
  "cosine_normalize index qn m = Inr m' \<Longrightarrow>
     m' = map (\<lambda>(d, s). (d, real s * (1 / qn) * (1 / norm_of index d))) m"
  by (induction index qn m arbitrary: m' rule: cosine_normalize.induct)
    (auto simp: norm_of_def split: if_splits option.splits sum.splits)

lemma cosine_unnormalized:
  assumes "merge_terms (in_vocabulary index) (cosine_plan index reader) (Counter q) [] = Inr m0"
  shows "real (score_of m0 d) * (1 / cosine_spec_norm q) * (1 / norm_of index d)
           = cosine_spec_score q index reader d"
    and "fst ` set m0 = scored_docs index reader q"
proof -
  have "score_of m0 d = (\<Sum>w \<in> set q. if in_vocabulary index w
          then plan_sum (cosine_plan index reader w (count_list q w)) d else 0)"
    using merge_Counter_score [OF assms] .
  also have "\<dots> = (\<Sum>w \<in> set q. if term_total index w \<noteq> None then
        (\<Sum>(d', wc) \<leftarrow> postings_of index reader w. if d' = d \<and> d' \<noteq> 0
           then wc * count_list q w else 0)
      else 0)"
    by (simp only: cosine_plan_sum in_vocabulary_def)
  finally show "real (score_of m0 d) * (1 / cosine_spec_norm q) * (1 / norm_of index d)
           = cosine_spec_score q index reader d"
    by (simp only: cosine_spec_score_def)
  have "fst ` set m0 = (\<Union>w \<in> set q. if in_vocabulary index w
          then plan_docs (cosine_plan index reader w (count_list q w)) else {})"
    using merge_Counter_keys [OF assms] .
  then show "fst ` set m0 = scored_docs index reader q"
    by (simp add: scored_docs_def cosine_plan_docs in_vocabulary_def)
qed

lemma cat_cosine_scores2:
  "OPT_Cosine_scores [''cat'', ''cat''] cat_index exact_reader = Inr [(7, 2)]"
  by (simp add: OPT_Cosine_scores_def Counter_cat_cat cat_postings query_norm_def)
    (simp add: cat_index_def)

text \<open>
  Claim C5.  In \<open>OPT_Cosine\<close> the query norm is the L2 norm of the relative counts of the
  distinct query terms, and the score of a document is the sum of
  \<open>word_count * query_word_count\<close> over the known terms' postings with a non-zero document id,
  with no IDF factor, times \<open>1 / query_norm\<close> and \<open>1 / docs_norm[doc_id]\<close>.
\<close>

theorem OPT_Cosine_scores_formula:
  "q \<noteq> [] \<and> OPT_Cosine_scores q index reader = Inr m \<longrightarrow>
      query_norm q = cosine_spec_norm q
      \<and> fst ` set m = scored_docs index reader q
      \<and> (\<forall>(d, s) \<in> set m. s = cosine_spec_score q index reader d)"
proof (intro impI, elim conjE)
  assume r: "OPT_Cosine_scores q index reader = Inr m"
  obtain m0 where a: "merge_terms (in_vocabulary index) (cosine_plan index reader)
        (Counter q) [] = Inr m0"
    and b: "cosine_normalize index (query_norm q) m0 = Inr m"
    using r by (auto simp: OPT_Cosine_scores_def cosine_terms_merge split: sum.splits)
  have d0: "distinct (map fst m0)" using merge_terms_distinct [OF a] by simp
  have e: "m = map (\<lambda>(d, s). (d, real s * (1 / cosine_spec_norm q) * (1 / norm_of index d))) m0"
    using cosine_normalize_entries [OF b] by (simp add: query_norm_spec)
  have k: "fst ` set m = scored_docs index reader q"
    using cosine_unnormalized(2) [OF a] keys_of_map [OF cosine_normalize_map [OF b]] by simp
  have "s = cosine_spec_score q index reader d" if "(d, s) \<in> set m" for d s
    using normalized_entry [OF d0, of d s
        "\<lambda>d s. real s * (1 / cosine_spec_norm q) * (1 / norm_of index d)"]
      that e cosine_unnormalized(1) [OF a, of d] by simp
  then show "query_norm q = cosine_spec_norm q
      \<and> fst ` set m = scored_docs index reader q
      \<and> (\<forall>(d, s) \<in> set m. s = cosine_spec_score q index reader d)"
    using k query_norm_spec by blast
qed

theorem OPT_Cosine_scores_formula_witness:
  "OPT_Cosine_scores [''cat'', ''cat''] cat_index exact_reader = Inr [(7, 2)]
   \<and> query_norm [''cat'', ''cat''] = cosine_spec_norm [''cat'', ''cat'']
   \<and> scored_docs cat_index exact_reader [''cat'', ''cat''] = {7}
   \<and> cosine_spec_score [''cat'', ''cat''] cat_index exact_reader 7 = 2"
  using OPT_Cosine_scores_formula [of "[''cat'', ''cat'']" cat_index exact_reader "[(7, 2)]"]
    cat_cosine_scores2
  by simp

section \<open>Query terms outside the vocabulary\<close>

lemma filter_add_score:
  "filter (\<lambda>t. P (fst t)) (add_score c w v)
     = (if P w then add_score (filter (\<lambda>t. P (fst t)) c) w v else filter (\<lambda>t. P (fst t)) c)"
  by (induction c) auto

lemma filter_counter_fold:
  "filter (\<lambda>t. P (fst t)) (foldl (\<lambda>c w. add_score c w (1::nat)) c q)
     = foldl (\<lambda>c w. add_score c w 1) (filter (\<lambda>t. P (fst t)) c) (filter P q)"
  by (induction q arbitrary: c) (simp_all add: filter_add_score)

lemma filter_Counter: "filter (\<lambda>t. P (fst t)) (Counter q) = Counter (filter P q)"
  unfolding Counter_def using filter_counter_fold [of P "[]" q] by simp

lemma merge_terms_unknown:
  assumes "\<not> kn u"
  shows "merge_terms kn plan (Counter (q1 @ u # q2)) m = merge_terms kn plan (Counter (q1 @ q2)) m"
proof -
  have "filter kn (q1 @ u # q2) = filter kn (q1 @ q2)" using assms by simp
  then have "filter (\<lambda>t. kn (fst t)) (Counter (q1 @ u # q2))
      = filter (\<lambda>t. kn (fst t)) (Counter (q1 @ q2))"
    by (simp only: filter_Counter)
  then show ?thesis
    using merge_terms_filter [of kn plan "Counter (q1 @ u # q2)" m]
      merge_terms_filter [of kn plan "Counter (q1 @ q2)" m] by simp
qed

lemma query_norm_pos:
  assumes "q \<noteq> []"
  shows "0 < query_norm q"
proof -
  obtain w where w: "w \<in> set q" using assms by (cases q) auto
  have "count_list q w \<noteq> 0" using w count_list_0_iff [of q w] by blast
  then have "0 < count_list q w" by simp
  then have p: "0 < (real (count_list q w) / real (length q))\<^sup>2"
    using assms by simp
  have "0 < (\<Sum>w \<in> set q. (real (count_list q w) / real (length q))\<^sup>2)"
    using sum_pos2 [of "set q" w "\<lambda>w. (real (count_list q w) / real (length q))\<^sup>2"] w p
    by simp
  then show ?thesis by (simp add: query_norm_spec cosine_spec_norm_def)
qed

section \<open>BM25 scores\<close>





lemma bm_postings: "read_posting_list bm_index bm_reader ''cat'' = Inr [(5, 2)]"
  by (simp add: read_posting_list_def bm_index_def bm_reader_def decode_posting_def slice_def
      from_bytes_big_def)

lemma bm_lookups:
  "df bm_index ''cat'' = Some 1" "term_total bm_index ''cat'' = Some 2"
  "DL bm_index 5 = Some 100"
  by (simp_all add: bm_index_def)

lemma bm_scores_default:
  "calc_BM25 [''cat''] bm_index bm_reader 10 100 3 0.25 = Inr [(5, 8 / 5 * ln (22 / 3))]"
  by (simp add: calc_BM25_def Counter_cat bm_postings bm_lookups)

lemma bm_scores_supplied:
  "calc_BM25 [''cat''] bm_index bm_reader 10 100 1 0.5 = Inr [(5, 4 / 3 * ln (22 / 3))]"
  by (simp add: calc_BM25_def Counter_cat bm_postings bm_lookups)

text \<open>
  Claim C1 at the input \<open>k = 1\<close>, \<open>b = 0.5\<close>.  Neither entry point passes its \<open>k\<close> and \<open>b\<close> on, so
  their results are those of \<open>k = 3\<close>, \<open>b = 0.25\<close> whatever the caller supplies: on the BM25
  example of the specification the supplied parameters would give the score
  \<open>4/3 * ln (22/3)\<close>, and \<open>opt_BM25_for_joint\<close> returns \<open>8/5 * ln (22/3)\<close>.
\<close>

theorem opt_BM25_ignores_k_b:
  "opt_BM25 q index reader cd avg k b N = opt_BM25 q index reader cd avg 3 0.25 N
   \<and> opt_BM25_for_joint q index cd avg reader k b N
        = opt_BM25_for_joint q index cd avg reader 3 0.25 N
   \<and> calc_BM25 [''cat''] bm_index bm_reader 10 100 1 0.5 = Inr [(5, 4 / 3 * ln (22 / 3))]
   \<and> opt_BM25_for_joint [''cat''] bm_index 10 100 bm_reader 1 0.5 100
        = Inr [(5, 8 / 5 * ln (22 / 3))]
   \<and> 4 / 3 * ln (22 / 3) \<noteq> (8 / 5 * ln (22 / 3) :: real)"
proof -
  have "0 < ln (22 / 3 :: real)" by simp
  then have n: "4 / 3 * ln (22 / 3) \<noteq> (8 / 5 * ln (22 / 3) :: real)" by simp
  have j: "opt_BM25_for_joint [''cat''] bm_index 10 100 bm_reader 1 0.5 100
        = Inr [(5, 8 / 5 * ln (22 / 3))]"
    using bm_scores_default
    by (simp add: opt_BM25_for_joint_def top_pairs_def sorted_desc_def)
  show ?thesis
    using n j bm_scores_supplied by (simp add: opt_BM25_def opt_BM25_for_joint_def)
qed

theorem opt_BM25_ignores_k_b_witness:
  "opt_BM25 [''cat''] bm_index bm_reader 10 100 1 0.5 100
     = opt_BM25 [''cat''] bm_index bm_reader 10 100 3 0.25 100"
  using opt_BM25_ignores_k_b [of "[''cat'']" bm_index bm_reader 10 100 1 "0.5" 100] by simp

section \<open>Rounding to double precision\<close>








section \<open>BM25 and the order of the query terms\<close>

lemma bm25_postings_fp_accumulate:
  "bm25_postings_fp index avg k b q_idf pl m
     = accumulate (bm25_weight_fp index avg k b q_idf) pl m"
  by (induction index avg k b q_idf pl m rule: bm25_postings_fp.induct)
    (auto simp: bm25_weight_fp_def split: option.splits)

lemma bm25_terms_fp_merge:
  "bm25_terms_fp lg index reader cd avg k b ts m
     = merge_terms (in_vocabulary index) (bm25_plan_fp lg index reader cd avg k b) ts m"
  by (induction lg index reader cd avg k b ts m rule: bm25_terms_fp.induct)
    (auto simp: in_vocabulary_def bm25_plan_fp_def bm25_postings_fp_accumulate
      split: sum.splits option.splits)











section \<open>Query terms outside the vocabulary: what stays unchanged\<close>

lemma tfidf_normalize_shape:
  assumes "n \<noteq> 0" and "n' \<noteq> 0"
  shows "map_sum id (map fst) (tfidf_normalize index n m)
           = map_sum id (map fst) (tfidf_normalize index n' m)"
  using assms
  by (induction index n m rule: tfidf_normalize.induct)
    (auto split: option.splits sum.splits)

lemma cosine_normalize_shape:
  assumes "qn \<noteq> 0" and "qn' \<noteq> 0"
  shows "map_sum id (map fst) (cosine_normalize index qn m)
           = map_sum id (map fst) (cosine_normalize index qn' m)"
  using assms
  by (induction index qn m rule: cosine_normalize.induct)
    (auto split: option.splits sum.splits)

lemma tfidf_terms_unknown:
  assumes "term_total index u = None"
  shows "tfidf_terms index reader cd (Counter (q1 @ u # q2)) []
           = tfidf_terms index reader cd (Counter (q1 @ q2)) []"
  using assms by (simp add: tfidf_terms_merge merge_terms_unknown in_vocabulary_def)

lemma cosine_terms_unknown:
  assumes "term_total index u = None"
  shows "cosine_terms index reader (Counter (q1 @ u # q2)) []
           = cosine_terms index reader (Counter (q1 @ q2)) []"
  using assms by (simp add: cosine_terms_merge merge_terms_unknown in_vocabulary_def)

lemma tfidf_docs_unknown:
  assumes "term_total index u = None"
  shows "map_sum id (map fst) (OPT_Tfidf_scores (q1 @ u # q2) index reader cd)
           = map_sum id (map fst) (OPT_Tfidf_scores (q1 @ q2) index reader cd)"
proof (cases "tfidf_terms index reader cd (Counter (q1 @ q2)) []")
  case (Inl e)
  then show ?thesis by (simp add: OPT_Tfidf_scores_def tfidf_terms_unknown [OF assms])
next
  case (Inr m0)
  show ?thesis
  proof (cases "q1 @ q2 = []")
    case True
    then have "m0 = []" using Inr by (simp add: Counter_def)
    then show ?thesis
      using Inr by (simp add: OPT_Tfidf_scores_def tfidf_terms_unknown [OF assms])
  next
    case False
    then have n: "length (q1 @ q2) \<noteq> 0" "length (q1 @ u # q2) \<noteq> 0" by simp_all
    show ?thesis
      using Inr tfidf_normalize_shape [OF n(2) n(1), of index m0]
      by (simp add: OPT_Tfidf_scores_def tfidf_terms_unknown [OF assms] del: length_append)
  qed
qed

lemma cosine_docs_unknown:
  assumes "term_total index u = None"
  shows "map_sum id (map fst) (OPT_Cosine_scores (q1 @ u # q2) index reader)
           = map_sum id (map fst) (OPT_Cosine_scores (q1 @ q2) index reader)"
proof (cases "cosine_terms index reader (Counter (q1 @ q2)) []")
  case (Inl e)
  then show ?thesis by (simp add: OPT_Cosine_scores_def cosine_terms_unknown [OF assms])
next
  case (Inr m0)
  show ?thesis
  proof (cases "q1 @ q2 = []")
    case True
    then have "m0 = []" using Inr by (simp add: Counter_def)
    then show ?thesis
      using Inr by (simp add: OPT_Cosine_scores_def cosine_terms_unknown [OF assms])
  next
    case False
    then have n: "query_norm (q1 @ q2) \<noteq> 0" "query_norm (q1 @ u # q2) \<noteq> 0"
      using query_norm_pos [of "q1 @ q2"] query_norm_pos [of "q1 @ u # q2"] by simp_all
    show ?thesis
      using Inr cosine_normalize_shape [OF n(2) n(1), of index m0]
      by (simp add: OPT_Cosine_scores_def cosine_terms_unknown [OF assms])
  qed
qed

text \<open>
  Claim C8, as the code has it.  A query term that is not a key of \<open>term_total\<close> is skipped: it
  raises nothing, and the loops add the same values in the same order to the same documents.
  So the BM25 score map and both BM25 rankings are unchanged, and in TF-IDF and cosine the
  accumulated sums, the scored documents and their order in the dict, and the error if there
  is one, are unchanged.  The final TF-IDF and cosine scores are those sums normalised with
  the length, respectively the norm, of the longer query.
\<close>

theorem unknown_term_skipped:
  assumes "term_total index u = None"
  shows "calc_BM25 (q1 @ u # q2) index reader cd avg k b
           = calc_BM25 (q1 @ q2) index reader cd avg k b
    \<and> opt_BM25 (q1 @ u # q2) index reader cd avg k b N
           = opt_BM25 (q1 @ q2) index reader cd avg k b N
    \<and> opt_BM25_for_joint (q1 @ u # q2) index cd avg reader k b N
           = opt_BM25_for_joint (q1 @ q2) index cd avg reader k b N
    \<and> calc_BM25_fp lg (q1 @ u # q2) index reader cd favg fk fb
           = calc_BM25_fp lg (q1 @ q2) index reader cd favg fk fb
    \<and> tfidf_terms index reader cd (Counter (q1 @ u # q2)) []
           = tfidf_terms index reader cd (Counter (q1 @ q2)) []
    \<and> OPT_Tfidf_scores (q1 @ u # q2) index reader cd
           = (case tfidf_terms index reader cd (Counter (q1 @ q2)) [] of
                Inl e \<Rightarrow> Inl e
              | Inr m \<Rightarrow> tfidf_normalize index (length (q1 @ q2) + 1) m)
    \<and> map_sum id (map fst) (OPT_Tfidf_scores (q1 @ u # q2) index reader cd)
           = map_sum id (map fst) (OPT_Tfidf_scores (q1 @ q2) index reader cd)
    \<and> cosine_terms index reader (Counter (q1 @ u # q2)) []
           = cosine_terms index reader (Counter (q1 @ q2)) []
    \<and> OPT_Cosine_scores (q1 @ u # q2) index reader
           = (case cosine_terms index reader (Counter (q1 @ q2)) [] of
                Inl e \<Rightarrow> Inl e
              | Inr m \<Rightarrow> cosine_normalize index (query_norm (q1 @ u # q2)) m)
    \<and> map_sum id (map fst) (OPT_Cosine_scores (q1 @ u # q2) index reader)
           = map_sum id (map fst) (OPT_Cosine_scores (q1 @ q2) index reader)"
proof -
  have bm: "calc_BM25 (q1 @ u # q2) index reader cd avg k b
           = calc_BM25 (q1 @ q2) index reader cd avg k b" for k b
    using assms by (simp add: calc_BM25_def bm25_terms_merge merge_terms_unknown in_vocabulary_def)
  have fp: "calc_BM25_fp lg (q1 @ u # q2) index reader cd favg fk fb
           = calc_BM25_fp lg (q1 @ q2) index reader cd favg fk fb"
    using assms
    by (simp add: calc_BM25_fp_def bm25_terms_fp_merge merge_terms_unknown in_vocabulary_def)
  have tt: "tfidf_terms index reader cd (Counter (q1 @ u # q2)) []
           = tfidf_terms index reader cd (Counter (q1 @ q2)) []"
    using tfidf_terms_unknown [OF assms] .
  have ts: "OPT_Tfidf_scores (q1 @ u # q2) index reader cd
           = (case tfidf_terms index reader cd (Counter (q1 @ q2)) [] of
                Inl e \<Rightarrow> Inl e
              | Inr m \<Rightarrow> tfidf_normalize index (length (q1 @ q2) + 1) m)"
  proof -
    have len: "length (q1 @ u # q2) = length (q1 @ q2) + 1" by simp
    show ?thesis unfolding OPT_Tfidf_scores_def tt len ..
  qed
  have ct: "cosine_terms index reader (Counter (q1 @ u # q2)) []
           = cosine_terms index reader (Counter (q1 @ q2)) []"
    using cosine_terms_unknown [OF assms] .
  have cs: "OPT_Cosine_scores (q1 @ u # q2) index reader
           = (case cosine_terms index reader (Counter (q1 @ q2)) [] of
                Inl e \<Rightarrow> Inl e
              | Inr m \<Rightarrow> cosine_normalize index (query_norm (q1 @ u # q2)) m)"
    unfolding OPT_Cosine_scores_def ct ..
  have ob: "opt_BM25 (q1 @ u # q2) index reader cd avg k b N
           = opt_BM25 (q1 @ q2) index reader cd avg k b N"
    by (simp only: opt_BM25_def bm)
  have oj: "opt_BM25_for_joint (q1 @ u # q2) index cd avg reader k b N
           = opt_BM25_for_joint (q1 @ q2) index cd avg reader k b N"
    by (simp only: opt_BM25_for_joint_def bm)
  note td = tfidf_docs_unknown [OF assms, of q1 q2 reader cd]
  note cd = cosine_docs_unknown [OF assms, of q1 q2 reader]
  show ?thesis
    by (intro conjI) (rule bm ob oj fp tt ts td ct cs cd)+
qed


lemma Counter_cat_dog: "Counter [''cat'', ''dog''] = [(''cat'', 1), (''dog'', 1)]"
  by (simp add: Counter_def)

lemma zoo_tfidf_scores_dog:
  "OPT_Tfidf_scores [''cat'', ''dog''] zoo_index zoo_reader 30
     = Inr [(1, 1 / 10), (2, 1 / 4), (3, 1 / 20)]"
  by (simp add: OPT_Tfidf_scores_def Counter_cat_dog zoo_postings)
    (simp add: zoo_index_def)

theorem unknown_term_skipped_witness:
  "term_total zoo_index ''dog'' = None
   \<and> calc_BM25 ([''cat''] @ ''dog'' # []) zoo_index zoo_reader 30 10 3 (1 / 4)
        = calc_BM25 ([''cat''] @ []) zoo_index zoo_reader 30 10 3 (1 / 4)
   \<and> OPT_Tfidf_scores ([''cat''] @ ''dog'' # []) zoo_index zoo_reader 30
        = Inr [(1, 1 / 10), (2, 1 / 4), (3, 1 / 20)]
   \<and> map_sum id (map fst) (OPT_Tfidf_scores ([''cat''] @ ''dog'' # []) zoo_index zoo_reader 30)
        = Inr [1, 2, 3]"
proof -
  have u: "term_total zoo_index ''dog'' = None" by (simp add: zoo_index_def)
  note t = unknown_term_skipped [OF u, of "[''cat'']" "[]" zoo_reader 30 10 3 "1 / 4" 0
      "\<lambda>x. x" "Double 10" "Double 3" "Double (1 / 4)"]
  have a: "calc_BM25 ([''cat''] @ ''dog'' # []) zoo_index zoo_reader 30 10 3 (1 / 4)
        = calc_BM25 ([''cat''] @ []) zoo_index zoo_reader 30 10 3 (1 / 4)"
    using t by blast
  have "map_sum id (map fst) (OPT_Tfidf_scores ([''cat''] @ ''dog'' # []) zoo_index zoo_reader 30)
        = map_sum id (map fst) (OPT_Tfidf_scores ([''cat''] @ []) zoo_index zoo_reader 30)"
    using t by blast
  then have b: "map_sum id (map fst)
        (OPT_Tfidf_scores ([''cat''] @ ''dog'' # []) zoo_index zoo_reader 30) = Inr [1, 2, 3]"
    using zoo_tfidf_scores by simp
  show ?thesis using u a b zoo_tfidf_scores_dog by simp
qed

theorem unknown_term_counterexample:
  "term_total zoo_index ''dog'' = None
   \<and> OPT_Tfidf_scores [''cat''] zoo_index zoo_reader 30 = Inr [(1, 1 / 5), (2, 1 / 2), (3, 1 / 10)]
   \<and> OPT_Tfidf_scores [''cat'', ''dog''] zoo_index zoo_reader 30
        = Inr [(1, 1 / 10), (2, 1 / 4), (3, 1 / 20)]"
  using zoo_tfidf_scores zoo_tfidf_scores_dog by (simp add: zoo_index_def)

end
